theory Spec2Isabelle
  imports Main "HOL-Library.Sublist"
begin

section \<open>Python strings\<close>

text \<open>
  The program is \<^verbatim>\<open>src/main.py\<close>. A Python \<^verbatim>\<open>str\<close> is a sequence of code points.
  It is modelled as a \<^typ>\<open>string\<close>, whose characters carry the code points
  U+0000 .. U+00FF (Basic Latin and Latin-1 Supplement); \<open>length\<close> is Python's
  \<^verbatim>\<open>len\<close>. The upper-case form of such a text may leave that range
  (U+00B5 and U+00FF) and may be longer than the text (U+00DF becomes \<^verbatim>\<open>SS\<close>),
  so \<^verbatim>\<open>str.upper\<close> returns a list of code points.
\<close>

type_synonym codepoints = "nat list"

definition codes :: "string \<Rightarrow> codepoints" where
  "codes s = map of_char s"

text \<open>\<^verbatim>\<open>str.isspace\<close> on one character: the white space that \<^verbatim>\<open>str.strip()\<close> removes.\<close>

definition isspace :: "char \<Rightarrow> bool" where
  "isspace c = (let n = (of_char c :: nat) in
     (9 \<le> n \<and> n \<le> 13) \<or> (28 \<le> n \<and> n \<le> 32) \<or> n = 133 \<or> n = 160)"

text \<open>The full upper-case mapping of one character (\<^verbatim>\<open>str.upper\<close> works character by character).\<close>

definition upper_char :: "char \<Rightarrow> codepoints" where
  "upper_char c = (let n = (of_char c :: nat) in
     if 97 \<le> n \<and> n \<le> 122 then [n - 32]
     else if n = 181 then [924]
     else if n = 223 then [83, 83]
     else if 224 \<le> n \<and> n \<le> 254 \<and> n \<noteq> 247 then [n - 32]
     else if n = 255 then [376]
     else [n])"

definition upper :: "string \<Rightarrow> codepoints" where
  "upper s = concat (map upper_char s)"

text \<open>\<^verbatim>\<open>s.lstrip(chars)\<close>, \<^verbatim>\<open>s.rstrip(chars)\<close>, \<^verbatim>\<open>s.strip(chars)\<close>, with the set of characters as a predicate.\<close>

definition lstrip_chars :: "(char \<Rightarrow> bool) \<Rightarrow> string \<Rightarrow> string" where
  "lstrip_chars P s = dropWhile P s"

definition rstrip_chars :: "(char \<Rightarrow> bool) \<Rightarrow> string \<Rightarrow> string" where
  "rstrip_chars P s = rev (dropWhile P (rev s))"

definition strip_chars :: "(char \<Rightarrow> bool) \<Rightarrow> string \<Rightarrow> string" where
  "strip_chars P s = rstrip_chars P (lstrip_chars P s)"

text \<open>\<^verbatim>\<open>s.strip()\<close>\<close>

definition strip :: "string \<Rightarrow> string" where
  "strip s = strip_chars isspace s"

text \<open>
  \<^verbatim>\<open>s.find(sub)\<close>: the lowest index at which \<open>sub\<close> occurs, \<open>None\<close> for Python's \<open>-1\<close>.
  \<^verbatim>\<open>sub in s\<close> is \<^term>\<open>sublist sub s\<close>, the test for a contiguous occurrence.
\<close>

fun find :: "'a list \<Rightarrow> 'a list \<Rightarrow> nat option" where
  "find sub [] = (if sub = [] then Some 0 else None)"
| "find sub (x # xs) =
     (if prefix sub (x # xs) then Some 0 else map_option Suc (find sub xs))"

text \<open>
  \<^verbatim>\<open>s.replace(old, '')\<close>: every occurrence of \<open>old\<close> is removed, scanning from the left and
  resuming after each occurrence removed. For an empty \<open>old\<close> Python returns \<open>s\<close>.
\<close>

function remove_all :: "'a list \<Rightarrow> 'a list \<Rightarrow> 'a list" where
  "remove_all old [] = []"
| "remove_all old (x # xs) =
     (if old \<noteq> [] \<and> prefix old (x # xs)
      then remove_all old (drop (length old) (x # xs))
      else if old = [] then x # xs
      else x # remove_all old xs)"
  by pat_completeness auto
termination
  by (relation "measure (\<lambda>(old, s). length s)") (auto simp: neq_Nil_conv)

section \<open>The Response Sanitizer\<close>

text \<open>The characters of \<^verbatim>\<open>'"\''\<close>, the argument of \<^verbatim>\<open>strip\<close> at line 159.\<close>

definition is_quote :: "char \<Rightarrow> bool" where
  "is_quote c = (c = CHR 0x22 \<or> c = CHR 0x27)"

definition is_semicolon :: "char \<Rightarrow> bool" where
  "is_semicolon c = (c = CHR '';'')"

definition fence :: string where
  "fence = [CHR 0x60, CHR 0x60, CHR 0x60]"

text \<open>Line 158: \<^verbatim>\<open>sql_query.replace('```sql', '').replace('```', '').strip()\<close>\<close>

definition remove_fences :: "string \<Rightarrow> string" where
  "remove_fences s = strip (remove_all fence (remove_all (fence @ ''sql'') s))"

text \<open>Line 159: \<^verbatim>\<open>sql_query.strip('"\'')\<close>\<close>

definition strip_quotes :: "string \<Rightarrow> string" where
  "strip_quotes s = strip_chars is_quote s"

text \<open>
  Lines 162 to 164: the index is looked up in the upper-case copy and used to slice the
  text itself.
\<close>

definition cut_to_select :: "string \<Rightarrow> string" where
  "cut_to_select s =
     (if sublist (codes ''SELECT'') (upper s)
      then (case find (codes ''SELECT'') (upper s) of
              Some select_index \<Rightarrow> drop select_index s
            | None \<Rightarrow> s)
      else s)"

text \<open>Line 167: \<^verbatim>\<open>sql_query.rstrip(';').strip()\<close>\<close>

definition strip_semicolon :: "string \<Rightarrow> string" where
  "strip_semicolon s = strip (rstrip_chars is_semicolon s)"

text \<open>Lines 158 to 169 of \<^verbatim>\<open>generate_sql_query\<close>: the clean-up of the candidate text.\<close>

definition sanitize :: "string \<Rightarrow> string" where
  "sanitize s = strip_semicolon (cut_to_select (strip_quotes (remove_fences s)))"

section \<open>Exceptions and JSON values\<close>

text \<open>
  The exceptions the program can meet. All of them are subclasses of Python's
  \<^verbatim>\<open>Exception\<close>; \<open>RequestException\<close> stands for \<^verbatim>\<open>requests.exceptions.RequestException\<close>
  and its subclasses, \<open>MySQLError\<close> for \<^verbatim>\<open>mysql.connector.Error\<close> and its subclasses. The
  string is a detail that tells two exceptions of one class apart.
\<close>

datatype exn =
    RequestException string
  | MySQLError string
  | ValueError string
  | TypeError
  | KeyError
  | IndexError
  | AttributeError

definition is_Exception :: "exn \<Rightarrow> bool" where
  "is_Exception e = True"

fun is_RequestException :: "exn \<Rightarrow> bool" where
  "is_RequestException (RequestException m) = True"
| "is_RequestException e = False"

fun is_MySQLError :: "exn \<Rightarrow> bool" where
  "is_MySQLError (MySQLError m) = True"
| "is_MySQLError e = False"

text \<open>A computation that returns a value (\<open>Inr\<close>) or raises (\<open>Inl\<close>), and its sequencing.\<close>

definition bind_exn :: "exn + 'a \<Rightarrow> ('a \<Rightarrow> exn + 'b) \<Rightarrow> exn + 'b" where
  "bind_exn m f = (case m of Inl e \<Rightarrow> Inl e | Inr v \<Rightarrow> f v)"

text \<open>
  \<^verbatim>\<open>try: body except C as e: handler\<close>: an exception of the body that is of class \<open>C\<close>
  is handled, any other one propagates.
\<close>

definition try_except :: "exn + 'a \<Rightarrow> (exn \<Rightarrow> bool) \<Rightarrow> (exn \<Rightarrow> exn + 'a) \<Rightarrow> exn + 'a" where
  "try_except body catches handler =
     (case body of
        Inl e \<Rightarrow> (if catches e then handler e else Inl e)
      | Inr v \<Rightarrow> Inr v)"

text \<open>
  What \<^verbatim>\<open>response.json()\<close> returns: a dict is the association list of its items (the
  keys of a dict are distinct), a number is left abstract as an integer, as the program
  only ever meets one where it fails.
\<close>

datatype json =
    JNull
  | JBool bool
  | JNum int
  | JStr string
  | JArr "json list"
  | JObj "(string \<times> json) list"

text \<open>\<^verbatim>\<open>key in x\<close> for a string \<open>key\<close>\<close>

fun contains :: "string \<Rightarrow> json \<Rightarrow> exn + bool" where
  "contains key (JObj items) = Inr (key \<in> set (map fst items))"
| "contains key (JArr xs) = Inr (JStr key \<in> set xs)"
| "contains key (JStr s) = Inr (sublist key s)"
| "contains key x = Inl TypeError"

text \<open>\<^verbatim>\<open>x[key]\<close> for a string \<open>key\<close>\<close>

fun getitem :: "json \<Rightarrow> string \<Rightarrow> exn + json" where
  "getitem (JObj items) key =
     (case map_of items key of Some v \<Rightarrow> Inr v | None \<Rightarrow> Inl KeyError)"
| "getitem x key = Inl TypeError"

text \<open>\<^verbatim>\<open>x[0]\<close>; the keys of a JSON object are strings, so \<open>0\<close> is never one of them.\<close>

fun getitem_0 :: "json \<Rightarrow> exn + json" where
  "getitem_0 (JArr []) = Inl IndexError"
| "getitem_0 (JArr (x # xs)) = Inr x"
| "getitem_0 (JStr []) = Inl IndexError"
| "getitem_0 (JStr (c # s)) = Inr (JStr [c])"
| "getitem_0 (JObj items) = Inl KeyError"
| "getitem_0 x = Inl TypeError"

text \<open>\<^verbatim>\<open>len(x)\<close>\<close>

fun len :: "json \<Rightarrow> exn + nat" where
  "len (JArr xs) = Inr (length xs)"
| "len (JObj items) = Inr (length items)"
| "len (JStr s) = Inr (length s)"
| "len x = Inl TypeError"

text \<open>The values that \<^verbatim>\<open>for v in x\<close> runs through.\<close>

fun iterate :: "json \<Rightarrow> exn + json list" where
  "iterate (JArr xs) = Inr xs"
| "iterate (JObj items) = Inr (map (\<lambda>item. JStr (fst item)) items)"
| "iterate (JStr s) = Inr (map (\<lambda>c. JStr [c]) s)"
| "iterate x = Inl TypeError"

text \<open>\<^verbatim>\<open>x.get(key, default)\<close>, a method of dicts only.\<close>

fun dict_get :: "json \<Rightarrow> string \<Rightarrow> json \<Rightarrow> exn + json" where
  "dict_get (JObj items) key dflt =
     (case map_of items key of Some v \<Rightarrow> Inr v | None \<Rightarrow> Inr dflt)"
| "dict_get x key dflt = Inl AttributeError"

text \<open>\<^verbatim>\<open>x.replace(old, '')\<close> and \<^verbatim>\<open>x.strip()\<close>, methods of strings only.\<close>

fun str_replace :: "json \<Rightarrow> string \<Rightarrow> exn + string" where
  "str_replace (JStr s) old = Inr (remove_all old s)"
| "str_replace x old = Inl AttributeError"

fun str_strip :: "json \<Rightarrow> exn + string" where
  "str_strip (JStr s) = Inr (strip s)"
| "str_strip x = Inl AttributeError"

text \<open>
  The outcome of \<^verbatim>\<open>requests.get\<close> or \<^verbatim>\<open>requests.post\<close>: it raises, or returns a response
  with its \<^verbatim>\<open>status_code\<close>, its \<^verbatim>\<open>text\<close> and what \<^verbatim>\<open>json()\<close> does on it.
\<close>

datatype http_result =
    Raised exn
  | Response int string "exn + json"

section \<open>The Model Selector\<close>

definition preferred_models :: "string list" where
  "preferred_models =
     [''gemini-1.5-flash'', ''gemini-1.5-pro'', ''gemini-1.5-flash-latest'',
      ''gemini-pro'', ''gemini-1.0-pro'']"

definition default_model :: string where
  "default_model = ''gemini-1.5-flash''"

text \<open>Lines 52 to 57: the loop that fills \<^verbatim>\<open>available_models\<close>.\<close>

fun collect_available :: "json list \<Rightarrow> string list \<Rightarrow> exn + string list" where
  "collect_available [] available_models = Inr available_models"
| "collect_available (model # rest) available_models =
     (case dict_get model ''name'' (JStr []) of
        Inl e \<Rightarrow> Inl e
      | Inr name \<Rightarrow>
     (case str_replace name ''models/'' of
        Inl e \<Rightarrow> Inl e
      | Inr model_name \<Rightarrow>
     (case dict_get model ''supportedGenerationMethods'' (JArr []) of
        Inl e \<Rightarrow> Inl e
      | Inr supported_methods \<Rightarrow>
     (case contains ''generateContent'' supported_methods of
        Inl e \<Rightarrow> Inl e
      | Inr supported \<Rightarrow>
          collect_available rest
            (if supported then available_models @ [model_name] else available_models)))))"

text \<open>Lines 60 to 63: the first preference that some available model contains.\<close>

fun find_preferred :: "string list \<Rightarrow> string list \<Rightarrow> string option" where
  "find_preferred [] available_models = None"
| "find_preferred (preferred # rest) available_models =
     (case List.find (\<lambda>available. sublist preferred available) available_models of
        Some available \<Rightarrow> Some available
      | None \<Rightarrow> find_preferred rest available_models)"

text \<open>
  The body of the \<^verbatim>\<open>try\<close> of \<^verbatim>\<open>get_available_model\<close> (lines 39 to 67): \<open>Some\<close> is a
  \<^verbatim>\<open>return\<close> inside it, \<open>None\<close> is leaving it without one.
\<close>

definition select_from_catalog :: "http_result \<Rightarrow> exn + string option" where
  "select_from_catalog r =
     (case r of
        Raised e \<Rightarrow> Inl e
      | Response status_code text js \<Rightarrow>
          if status_code = 200 then
            bind_exn js (\<lambda>models_data.
            bind_exn (contains ''models'' models_data) (\<lambda>has_models.
              if has_models then
                bind_exn (getitem models_data ''models'') (\<lambda>models.
                bind_exn (iterate models) (\<lambda>entries.
                bind_exn (collect_available entries []) (\<lambda>available_models.
                  case find_preferred preferred_models available_models of
                    Some available \<Rightarrow> Inr (Some available)
                  | None \<Rightarrow>
                      (case available_models of
                         [] \<Rightarrow> Inr None
                       | first # others \<Rightarrow> Inr (Some first)))))
              else Inr None))
          else Inr None)"

text \<open>
  \<^verbatim>\<open>get_available_model\<close>: the handler of line 68 prints a warning and falls through to
  the default of line 72, as does a body that ends without a \<^verbatim>\<open>return\<close>.
\<close>

definition get_available_model :: "http_result \<Rightarrow> exn + string" where
  "get_available_model r =
     bind_exn (try_except (select_from_catalog r) is_Exception (\<lambda>e. Inr None))
       (\<lambda>returned. case returned of
                      Some model \<Rightarrow> Inr model
                    | None \<Rightarrow> Inr default_model)"

section \<open>The Completion Client\<close>

text \<open>The decimal text of an integer, as an f-string prints it.\<close>

fun str_nat :: "nat \<Rightarrow> string" where
  "str_nat n =
     (if n < 10 then [char_of (48 + n)]
      else str_nat (n div 10) @ [char_of (48 + n mod 10)])"

definition str_int :: "int \<Rightarrow> string" where
  "str_int i = (if i < 0 then ''-'' @ str_nat (nat (- i)) else str_nat (nat i))"

text \<open>
  The five \<^verbatim>\<open>return\<close> statements of \<^verbatim>\<open>generate_sql_query\<close> (lines 147, 155, 169, 172 and
  174) and the string each of them returns.
\<close>

datatype completion =
    Api_error int string
  | No_response
  | Query string
  | Network_error string
  | Generation_error string

fun returned :: "completion \<Rightarrow> string" where
  "returned (Api_error status_code text) =
     ''API Error '' @ str_int status_code @ '': '' @ text"
| "returned No_response = ''Error: No response generated''"
| "returned (Query sql_query) = sql_query"
| "returned (Network_error detail) = ''Network error: '' @ detail"
| "returned (Generation_error detail) = ''Error generating query: '' @ detail"

text \<open>Line 152: \<^verbatim>\<open>'candidates' in result and len(result['candidates']) > 0\<close>\<close>

definition has_candidates :: "json \<Rightarrow> exn + bool" where
  "has_candidates result =
     bind_exn (contains ''candidates'' result) (\<lambda>present.
       if present then
         bind_exn (getitem result ''candidates'') (\<lambda>candidates.
         bind_exn (len candidates) (\<lambda>n. Inr (n > 0)))
       else Inr False)"

text \<open>Line 153: \<^verbatim>\<open>result['candidates'][0]['content']['parts'][0]['text'].strip()\<close>\<close>

definition candidate_text :: "json \<Rightarrow> exn + string" where
  "candidate_text result =
     bind_exn (getitem result ''candidates'') (\<lambda>candidates.
     bind_exn (getitem_0 candidates) (\<lambda>candidate.
     bind_exn (getitem candidate ''content'') (\<lambda>content.
     bind_exn (getitem content ''parts'') (\<lambda>parts.
     bind_exn (getitem_0 parts) (\<lambda>part.
     bind_exn (getitem part ''text'') (\<lambda>text.
       str_strip text))))))"

text \<open>The body of the \<^verbatim>\<open>try\<close> (lines 139 to 169), on the outcome of the POST request.\<close>

definition request_completion :: "http_result \<Rightarrow> exn + completion" where
  "request_completion r =
     (case r of
        Raised e \<Rightarrow> Inl e
      | Response status_code text js \<Rightarrow>
          if status_code \<noteq> 200 then Inr (Api_error status_code text)
          else
            bind_exn js (\<lambda>result.
            bind_exn (has_candidates result) (\<lambda>found.
              if found then
                bind_exn (candidate_text result) (\<lambda>sql_query. Inr (Query (sanitize sql_query)))
              else Inr No_response)))"

text \<open>
  \<^verbatim>\<open>generate_sql_query\<close>, with its two handlers in the order of the source; \<open>str_exn\<close> is
  Python's \<^verbatim>\<open>str(e)\<close>.
\<close>

definition generate_sql_query_completion :: "(exn \<Rightarrow> string) \<Rightarrow> http_result \<Rightarrow> exn + completion" where
  "generate_sql_query_completion str_exn r =
     try_except
       (try_except (request_completion r) is_RequestException
          (\<lambda>e. Inr (Network_error (str_exn e))))
       is_Exception
       (\<lambda>e. Inr (Generation_error (str_exn e)))"

definition generate_sql_query :: "(exn \<Rightarrow> string) \<Rightarrow> http_result \<Rightarrow> exn + string" where
  "generate_sql_query str_exn r =
     bind_exn (generate_sql_query_completion str_exn r) (\<lambda>c. Inr (returned c))"

text \<open>
  One turn of the loop of \<^verbatim>\<open>main\<close> from line 262 on, for a question that is neither
  empty nor a quit command: what it does with the string that \<^verbatim>\<open>generate_sql_query\<close>
  returned. \<open>confirmed\<close> is whether the user answers \<^verbatim>\<open>y\<close> at line 278.
\<close>

datatype action =
    Print_error string
  | Print_query string
  | Execute string

definition is_error_result :: "string \<Rightarrow> bool" where
  "is_error_result sql_query \<longleftrightarrow>
     prefix ''Error'' sql_query \<or> prefix ''API Error'' sql_query
     \<or> prefix ''Network error'' sql_query"

definition main_turn :: "string \<Rightarrow> bool \<Rightarrow> action list" where
  "main_turn sql_query confirmed =
     (if is_error_result sql_query then [Print_error sql_query]
      else Print_query sql_query # (if confirmed then [Execute sql_query] else []))"

section \<open>The Schema Introspector and the Query Executor\<close>

text \<open>\<^verbatim>\<open>sep.join(xs)\<close>\<close>

fun join :: "string \<Rightarrow> string list \<Rightarrow> string" where
  "join sep [] = []"
| "join sep [x] = x"
| "join sep (x # y # ys) = x @ sep @ join sep (y # ys)"

text \<open>
  The connections and cursors that are open: \<^verbatim>\<open>connect\<close> and \<^verbatim>\<open>cursor()\<close> open one,
  \<^verbatim>\<open>close()\<close> releases one.
\<close>

record handles =
  connections :: nat
  cursors :: nat

definition open_connection :: "handles \<Rightarrow> handles" where
  "open_connection h = h\<lparr>connections := Suc (connections h)\<rparr>"

definition open_cursor :: "handles \<Rightarrow> handles" where
  "open_cursor h = h\<lparr>cursors := Suc (cursors h)\<rparr>"

definition close_cursor :: "handles \<Rightarrow> handles" where
  "close_cursor h = h\<lparr>cursors := cursors h - 1\<rparr>"

definition close_connection :: "handles \<Rightarrow> handles" where
  "close_connection h = h\<lparr>connections := connections h - 1\<rparr>"

text \<open>A row of the answer to \<^verbatim>\<open>DESCRIBE\<close>, the six fields that line 94 unpacks.\<close>

record column =
  col_name :: string
  col_type :: string
  col_null :: string
  col_key :: string
  col_default :: string
  col_extra :: string

text \<open>
  The database server, as the two functions meet it: whether \<^verbatim>\<open>connect\<close> raises, the
  table names that \<^verbatim>\<open>SHOW TABLES\<close> gives, the rows of \<^verbatim>\<open>DESCRIBE\<close> for a table, and for
  a statement the column names of \<^verbatim>\<open>cursor.description\<close> with the rows of \<^verbatim>\<open>fetchall\<close>,
  or the exception that \<^verbatim>\<open>execute\<close>, \<^verbatim>\<open>fetchall\<close> or the reading of the description
  raises.
\<close>

record 'v database =
  connect :: "exn option"
  show_tables :: "exn + string list"
  describe :: "string \<Rightarrow> exn + column list"
  run :: "string \<Rightarrow> exn + (string list \<times> 'v list list)"

text \<open>Line 95: the line of one column.\<close>

definition column_line :: "column \<Rightarrow> string" where
  "column_line c =
     ''  - '' @ col_name c @ '' ('' @ col_type c @ '')''
       @ (if col_key c = ''PRI'' then '' PRIMARY KEY'' else [])"

text \<open>Lines 86 to 95: the loop over the tables.\<close>

fun describe_tables :: "'v database \<Rightarrow> string list \<Rightarrow> string list \<Rightarrow> exn + string list" where
  "describe_tables db [] schema = Inr schema"
| "describe_tables db (table_name # tables) schema =
     (case describe db table_name of
        Inl e \<Rightarrow> Inl e
      | Inr columns \<Rightarrow>
          describe_tables db tables
            (schema @ [[CHR 10] @ ''Table: '' @ table_name] @ map column_line columns))"

text \<open>
  The body of the \<^verbatim>\<open>try\<close> of \<^verbatim>\<open>get_database_schema\<close> (lines 77 to 100), with the handles
  that are open when it returns or raises.
\<close>

definition read_schema :: "'v database \<Rightarrow> handles \<Rightarrow> (exn + string) \<times> handles" where
  "read_schema db h =
     (case connect db of
        Some e \<Rightarrow> (Inl e, h)
      | None \<Rightarrow>
          let conn = open_connection h;
              cursor = open_cursor conn
          in (case bind_exn (show_tables db) (\<lambda>tables. describe_tables db tables []) of
                Inl e \<Rightarrow> (Inl e, cursor)
              | Inr schema \<Rightarrow>
                  (Inr (join [CHR 10] schema), close_connection (close_cursor cursor))))"

definition get_database_schema ::
    "'v database \<Rightarrow> (exn \<Rightarrow> string) \<Rightarrow> handles \<Rightarrow> (exn + string) \<times> handles" where
  "get_database_schema db str_exn h =
     (let (outcome, h') = read_schema db h
      in (try_except outcome is_MySQLError
            (\<lambda>err. Inr (''Error getting schema: '' @ str_exn err)), h'))"

text \<open>
  The body of the \<^verbatim>\<open>try\<close> of \<^verbatim>\<open>execute_query\<close> (lines 179 to 191). The function returns a
  pair: the column names and the rows, or \<^verbatim>\<open>None\<close> and a message.
\<close>

type_synonym 'v query_result = "string list option \<times> (string + 'v list list)"

definition run_query :: "'v database \<Rightarrow> string \<Rightarrow> handles \<Rightarrow> (exn + 'v query_result) \<times> handles" where
  "run_query db sql_query h =
     (case connect db of
        Some e \<Rightarrow> (Inl e, h)
      | None \<Rightarrow>
          let conn = open_connection h;
              cursor = open_cursor conn
          in (case run db sql_query of
                Inl e \<Rightarrow> (Inl e, cursor)
              | Inr (column_names, results) \<Rightarrow>
                  (Inr (Some column_names, Inr results),
                   close_connection (close_cursor cursor))))"

definition execute_query ::
    "'v database \<Rightarrow> (exn \<Rightarrow> string) \<Rightarrow> string \<Rightarrow> handles \<Rightarrow> (exn + 'v query_result) \<times> handles" where
  "execute_query db str_exn sql_query h =
     (let (outcome, h') = run_query db sql_query h
      in (try_except outcome is_MySQLError
            (\<lambda>err. Inr (None, Inl (''Error executing query: '' @ str_exn err))), h'))"

section \<open>The Result Formatter\<close>

text \<open>\<^verbatim>\<open>s.ljust(width)\<close>\<close>

definition ljust :: "nat \<Rightarrow> string \<Rightarrow> string" where
  "ljust width s = s @ replicate (width - length s) CHR '' ''"

text \<open>
  Lines 204 and 205, from index \<open>i\<close> on: \<^verbatim>\<open>widths[i]\<close> raises for an index that is out of
  range. \<open>str\<close> is Python's \<^verbatim>\<open>str\<close> on the values of the cells.
\<close>

fun widen_row :: "('v \<Rightarrow> string) \<Rightarrow> nat list \<Rightarrow> nat \<Rightarrow> 'v list \<Rightarrow> exn + nat list" where
  "widen_row str widths i [] = Inr widths"
| "widen_row str widths i (val # row) =
     (if i < length widths
      then widen_row str (widths[i := max (widths ! i) (length (str val))]) (Suc i) row
      else Inl IndexError)"

text \<open>Line 203: the loop over the rows.\<close>

fun widen_rows :: "('v \<Rightarrow> string) \<Rightarrow> nat list \<Rightarrow> 'v list list \<Rightarrow> exn + nat list" where
  "widen_rows str widths [] = Inr widths"
| "widen_rows str widths (row # results) =
     (case widen_row str widths 0 row of
        Inl e \<Rightarrow> Inl e
      | Inr widths' \<Rightarrow> widen_rows str widths' results)"

text \<open>Lines 202 to 205.\<close>

definition column_widths :: "('v \<Rightarrow> string) \<Rightarrow> string list \<Rightarrow> 'v list list \<Rightarrow> exn + nat list" where
  "column_widths str column_names results = widen_rows str (map length column_names) results"

text \<open>\<^verbatim>\<open>s.ljust(widths[i]) for i, s in enumerate(cells)\<close>, from index \<open>i\<close> on.\<close>

fun ljust_cells :: "nat list \<Rightarrow> nat \<Rightarrow> string list \<Rightarrow> exn + string list" where
  "ljust_cells widths i [] = Inr []"
| "ljust_cells widths i (s # cells) =
     (if i < length widths
      then (case ljust_cells widths (Suc i) cells of
              Inl e \<Rightarrow> Inl e
            | Inr padded \<Rightarrow> Inr (ljust (widths ! i) s # padded))
      else Inl IndexError)"

text \<open>Lines 212 to 214.\<close>

fun format_rows :: "('v \<Rightarrow> string) \<Rightarrow> nat list \<Rightarrow> 'v list list \<Rightarrow> exn + string list" where
  "format_rows str widths [] = Inr []"
| "format_rows str widths (row # results) =
     (case ljust_cells widths 0 (map str row) of
        Inl e \<Rightarrow> Inl e
      | Inr padded \<Rightarrow>
          (case format_rows str widths results of
             Inl e \<Rightarrow> Inl e
           | Inr rows \<Rightarrow> Inr (join '' | '' padded # rows)))"

definition format_results :: "('v \<Rightarrow> string) \<Rightarrow> string list \<Rightarrow> 'v list list \<Rightarrow> exn + string" where
  "format_results str column_names results =
     (if results = [] then Inr ''No results found.''
      else
        bind_exn (column_widths str column_names results) (\<lambda>widths.
        bind_exn (ljust_cells widths 0 column_names) (\<lambda>names.
        bind_exn (format_rows str widths results) (\<lambda>rows.
          let header = join '' | '' names;
              separator = join ''-+-'' (map (\<lambda>width. replicate width CHR ''-'') widths)
          in Inr ([CHR 10] @ header @ [CHR 10] @ separator @ [CHR 10] @ join [CHR 10] rows)))))"

section \<open>Properties of the string operations\<close>

lemma find_None_iff: "find sub s = None \<longleftrightarrow> \<not> sublist sub s"
  by (induction s) (auto simp: sublist_Cons_right)

lemma find_Some_0_iff: "find sub s = Some 0 \<longleftrightarrow> prefix sub s"
  by (cases s) auto

lemma remove_all_absent: "\<not> sublist old s \<Longrightarrow> remove_all old s = s"
  by (induction old s rule: remove_all.induct) (auto simp: sublist_Cons_right)

lemma rstrip_chars_append:
  "rstrip_chars P s @ rev (takeWhile P (rev s)) = s"
proof -
  have "rev (takeWhile P (rev s) @ dropWhile P (rev s)) = s" by simp
  then show ?thesis unfolding rstrip_chars_def rev_append .
qed

lemma prefix_rstrip_chars: "prefix (rstrip_chars P s) s"
  using rstrip_chars_append [of P s] by (metis prefixI)

lemma suffix_lstrip_chars: "suffix (lstrip_chars P s) s"
  unfolding lstrip_chars_def by (rule suffix_dropWhile)

lemma sublist_strip_chars: "sublist (strip_chars P s) s"
proof -
  have "sublist (strip_chars P s) (lstrip_chars P s)"
    unfolding strip_chars_def by (rule prefix_imp_sublist [OF prefix_rstrip_chars])
  moreover have "sublist (lstrip_chars P s) s"
    by (rule suffix_imp_sublist [OF suffix_lstrip_chars])
  ultimately show ?thesis by (rule sublist_order.order_trans)
qed

lemma rstrip_chars_last: "rstrip_chars P s = [] \<or> \<not> P (last (rstrip_chars P s))"
proof (cases "dropWhile P (rev s) = []")
  case True
  then show ?thesis by (simp add: rstrip_chars_def)
next
  case False
  then have "\<not> P (hd (dropWhile P (rev s)))" by (rule hd_dropWhile)
  with False show ?thesis by (simp add: rstrip_chars_def last_rev)
qed

lemma lstrip_chars_hd: "lstrip_chars P s = [] \<or> \<not> P (hd (lstrip_chars P s))"
  unfolding lstrip_chars_def using hd_dropWhile [of P s] by blast

lemma rstrip_chars_id: "s = [] \<or> \<not> P (last s) \<Longrightarrow> rstrip_chars P s = s"
proof (cases s rule: rev_cases)
  case Nil
  then show ?thesis by (simp add: rstrip_chars_def)
next
  case (snoc ys y)
  assume "s = [] \<or> \<not> P (last s)"
  with snoc show ?thesis by (simp add: rstrip_chars_def)
qed

lemma lstrip_chars_id: "s = [] \<or> \<not> P (hd s) \<Longrightarrow> lstrip_chars P s = s"
  by (cases s) (auto simp: lstrip_chars_def)

lemma strip_chars_id:
  "s = [] \<or> (\<not> P (hd s) \<and> \<not> P (last s)) \<Longrightarrow> strip_chars P s = s"
  by (auto simp: strip_chars_def lstrip_chars_id rstrip_chars_id)

lemma strip_chars_ends:
  "strip_chars P s = [] \<or> (\<not> P (hd (strip_chars P s)) \<and> \<not> P (last (strip_chars P s)))"
proof (cases "strip_chars P s = []")
  case True
  then show ?thesis by simp
next
  case False
  let ?d = "lstrip_chars P s"
  have l: "\<not> P (last (strip_chars P s))"
    using False rstrip_chars_last [of P ?d] by (simp add: strip_chars_def)
  have "prefix (strip_chars P s) ?d"
    unfolding strip_chars_def by (rule prefix_rstrip_chars)
  then obtain r where r: "?d = strip_chars P s @ r" by (auto simp: prefix_def)
  with False have "hd ?d = hd (strip_chars P s)" by simp
  moreover have "?d \<noteq> []" using r False by auto
  ultimately have "\<not> P (hd (strip_chars P s))"
    using lstrip_chars_hd [of P s] by auto
  with l show ?thesis by simp
qed

lemma strip_chars_idem: "strip_chars P (strip_chars P s) = strip_chars P s"
  by (rule strip_chars_id) (rule strip_chars_ends)

lemma sublist_upper: "sublist t s \<Longrightarrow> sublist (upper t) (upper s)"
proof -
  assume "sublist t s"
  then obtain ps ss where "s = ps @ t @ ss" by (auto simp: sublist_def)
  then have "upper s = upper ps @ upper t @ upper ss" by (simp add: upper_def)
  then show ?thesis unfolding sublist_def by blast
qed

lemma sublist_cut_to_select: "sublist (cut_to_select s) s"
  by (auto simp: cut_to_select_def split: option.splits)

lemma sublist_strip_semicolon: "sublist (strip_semicolon s) s"
proof -
  have "sublist (strip_semicolon s) (rstrip_chars is_semicolon s)"
    unfolding strip_semicolon_def strip_def by (rule sublist_strip_chars)
  moreover have "sublist (rstrip_chars is_semicolon s) s"
    by (rule prefix_imp_sublist [OF prefix_rstrip_chars])
  ultimately show ?thesis by (rule sublist_order.order_trans)
qed


lemma prefix_replicate3_iff:
  "prefix [c, c, c] s \<longleftrightarrow> 3 \<le> length (takeWhile (\<lambda>x. x = c) s)"
proof (cases s)
  case Nil then show ?thesis by simp
next
  case (Cons a s1)
  show ?thesis
  proof (cases s1)
    case Nil with Cons show ?thesis by simp
  next
    case (Cons b s2)
    note c2 = this
    show ?thesis
    proof (cases s2)
      case Nil with c2 \<open>s = a # s1\<close> show ?thesis by simp
    next
      case (Cons d s3)
      with c2 \<open>s = a # s1\<close> show ?thesis by simp
    qed
  qed
qed

lemma remove_all_hit: "old \<noteq> [] \<Longrightarrow> remove_all old (old @ r) = remove_all old r"
  by (cases old) simp_all

lemma remove_all_miss:
  "old \<noteq> [] \<Longrightarrow> \<not> prefix old (x # xs) \<Longrightarrow> remove_all old (x # xs) = x # remove_all old xs"
  by simp

lemma lead_remove_all:
  "length (takeWhile (\<lambda>x. x = c) (remove_all [c, c, c] s)) =
   length (takeWhile (\<lambda>x. x = c) s) mod 3"
proof (induction "length s" arbitrary: s rule: less_induct)
  case less
  show ?case
  proof (cases "prefix [c, c, c] s")
    case True
    then obtain r where r: "s = [c, c, c] @ r" by (auto simp: prefix_def)
    have "remove_all [c, c, c] s = remove_all [c, c, c] r"
      unfolding r by (rule remove_all_hit) simp
    moreover have "length (takeWhile (\<lambda>x. x = c) s) = 3 + length (takeWhile (\<lambda>x. x = c) r)"
      by (simp add: r)
    moreover have "length r < length s" by (simp add: r)
    ultimately show ?thesis using less [of r] by simp
  next
    case False
    then have lt: "length (takeWhile (\<lambda>x. x = c) s) < 3"
      by (simp add: prefix_replicate3_iff)
    show ?thesis
    proof (cases s)
      case Nil then show ?thesis by simp
    next
      case (Cons x xs)
      have eq: "remove_all [c, c, c] s = x # remove_all [c, c, c] xs"
        unfolding Cons using False unfolding Cons by (intro remove_all_miss) simp_all
      have ih: "length (takeWhile (\<lambda>x. x = c) (remove_all [c, c, c] xs)) =
                length (takeWhile (\<lambda>x. x = c) xs) mod 3"
        using less [of xs] Cons by simp
      show ?thesis
      proof (cases "x = c")
        case True
        with lt Cons have "length (takeWhile (\<lambda>x. x = c) xs) < 2" by simp
        with ih True Cons eq show ?thesis by simp
      next
        case False
        with Cons eq show ?thesis by simp
      qed
    qed
  qed
qed

lemma remove_all_triple_free: "\<not> sublist [c, c, c] (remove_all [c, c, c] s)"
proof (induction "length s" arbitrary: s rule: less_induct)
  case less
  have np: "\<not> prefix [c, c, c] (remove_all [c, c, c] s)"
    unfolding prefix_replicate3_iff lead_remove_all by simp
  show ?case
  proof (cases "prefix [c, c, c] s")
    case True
    then obtain r where r: "s = [c, c, c] @ r" by (auto simp: prefix_def)
    have "remove_all [c, c, c] s = remove_all [c, c, c] r"
      unfolding r by (rule remove_all_hit) simp
    moreover have "length r < length s" by (simp add: r)
    ultimately show ?thesis using less [of r] by simp
  next
    case False
    show ?thesis
    proof (cases s)
      case Nil then show ?thesis by simp
    next
      case (Cons x xs)
      have eq: "remove_all [c, c, c] s = x # remove_all [c, c, c] xs"
        unfolding Cons using False unfolding Cons by (intro remove_all_miss) simp_all
      have "\<not> sublist [c, c, c] (remove_all [c, c, c] xs)"
        using less [of xs] Cons by simp
      with np show ?thesis unfolding eq by (simp only: sublist_Cons_right) simp
    qed
  qed
qed

lemma remove_fences_fence_free: "\<not> sublist fence (remove_fences s)"
proof
  assume "sublist fence (remove_fences s)"
  moreover have "sublist (remove_fences s) (remove_all fence (remove_all (fence @ ''sql'') s))"
    unfolding remove_fences_def strip_def by (rule sublist_strip_chars)
  ultimately have "sublist fence (remove_all fence (remove_all (fence @ ''sql'') s))"
    by (rule sublist_order.order_trans)
  then show False unfolding fence_def by (simp only: remove_all_triple_free)
qed

lemma remove_fences_absent:
  assumes "\<not> sublist fence s"
  shows "remove_fences s = strip s"
proof -
  have "sublist fence (fence @ ''sql'')" by (rule sublist_append_rightI)
  then have "\<not> sublist (fence @ ''sql'') s"
    using assms sublist_order.order_trans by blast
  then have "remove_all (fence @ ''sql'') s = s" by (rule remove_all_absent)
  moreover have "remove_all fence s = s" using assms by (rule remove_all_absent)
  ultimately show ?thesis by (simp add: remove_fences_def)
qed

lemma sublist_sanitize: "sublist (sanitize s) (remove_fences s)"
proof -
  have "sublist (sanitize s) (cut_to_select (strip_quotes (remove_fences s)))"
    unfolding sanitize_def by (rule sublist_strip_semicolon)
  moreover have "sublist (cut_to_select (strip_quotes (remove_fences s))) (strip_quotes (remove_fences s))"
    by (rule sublist_cut_to_select)
  moreover have "sublist (strip_quotes (remove_fences s)) (remove_fences s)"
    unfolding strip_quotes_def by (rule sublist_strip_chars)
  ultimately show ?thesis using sublist_order.order_trans by blast
qed

lemma sanitize_fence_free: "\<not> sublist fence (sanitize s)"
  using sublist_sanitize [of s] remove_fences_fence_free [of s] sublist_order.order_trans
  by blast

lemma sanitize_stripped: "strip (sanitize s) = sanitize s"
  unfolding sanitize_def strip_semicolon_def strip_def by (rule strip_chars_idem)

lemma cut_to_select_id:
  "(sublist (codes ''SELECT'') (upper t) \<longrightarrow> prefix (codes ''SELECT'') (upper t))
   \<Longrightarrow> cut_to_select t = t"
  unfolding cut_to_select_def
  by (auto split: option.splits simp: find_Some_0_iff [symmetric])

lemma sanitize_fixed_point:
  assumes fence: "\<not> sublist fence t"
    and space: "strip t = t"
    and ends: "t = [] \<or> (\<not> is_quote (hd t) \<and> \<not> is_quote (last t) \<and> \<not> is_semicolon (last t))"
    and sel: "sublist (codes ''SELECT'') (upper t) \<longrightarrow> prefix (codes ''SELECT'') (upper t)"
  shows "sanitize t = t"
proof -
  have 1: "remove_fences t = t" using fence space by (simp add: remove_fences_absent)
  have 2: "strip_quotes t = t"
    unfolding strip_quotes_def using ends by (intro strip_chars_id) auto
  have 3: "cut_to_select t = t" using sel by (rule cut_to_select_id)
  have 4: "rstrip_chars is_semicolon t = t" using ends by (intro rstrip_chars_id) auto
  show ?thesis by (simp add: sanitize_def strip_semicolon_def 1 2 3 4 space)
qed

lemma strip_chars_wrapped:
  assumes l: "\<forall>x\<in>set l. P x" and r: "\<forall>x\<in>set r. P x"
    and core: "core = [] \<or> (\<not> P (hd core) \<and> \<not> P (last core))"
  shows "strip_chars P (l @ core @ r) = core"
proof (cases "core = []")
  case True
  have d: "dropWhile P (l @ core @ r) = []"
    unfolding dropWhile_eq_Nil_conv using l r True by auto
  show ?thesis unfolding strip_chars_def lstrip_chars_def rstrip_chars_def d
    using True by simp
next
  case False
  with core have h: "\<not> P (hd core)" and t: "\<not> P (last core)" by auto
  have "dropWhile P (l @ core @ r) = dropWhile P (core @ r)"
    using l by (intro dropWhile_append2) simp
  also have "\<dots> = core @ r" using False h by (cases core) auto
  finally have 1: "lstrip_chars P (l @ core @ r) = core @ r" by (simp add: lstrip_chars_def)
  have "dropWhile P (rev r @ rev core) = dropWhile P (rev core)"
    using r by (intro dropWhile_append2) simp
  then have "dropWhile P (rev (core @ r)) = dropWhile P (rev core)"
    by simp
  also have "\<dots> = rev core" using False t by (cases core rule: rev_cases) auto
  finally have "rstrip_chars P (core @ r) = core" by (simp add: rstrip_chars_def)
  with 1 show ?thesis by (simp add: strip_chars_def)
qed

section \<open>Properties of the Response Sanitizer\<close>

text \<open>
  The sanitizer always ends with \<^verbatim>\<open>strip()\<close>, so its output never ends with white space.
\<close>

lemma sanitize_no_trailing_space:
  "sanitize s = [] \<or> \<not> isspace (last (sanitize s))"
  using strip_chars_ends [of isspace "rstrip_chars is_semicolon (cut_to_select (strip_quotes (remove_fences s)))"]
  unfolding sanitize_def strip_semicolon_def strip_def by blast

text \<open>
  Claim C1 (idempotence of the sanitizer). The claim does not hold for every text: a
  second pass strips a quote character that the first pass left at an end of its output,
  and a semicolon that it left there. What holds: an output that neither begins nor ends
  with a quote character, that does not end with a semicolon, and in which \<^verbatim>\<open>SELECT\<close>
  (in any case) occurs at the very start if it occurs at all, is returned unchanged by a
  second pass.
\<close>

theorem sanitize_idempotent_on_clean_output:
  assumes "t = sanitize s"
    and "t = [] \<or> (\<not> is_quote (hd t) \<and> \<not> is_quote (last t) \<and> \<not> is_semicolon (last t))"
    and "sublist (codes ''SELECT'') (upper t) \<longrightarrow> prefix (codes ''SELECT'') (upper t)"
  shows "sanitize t = t"
proof (rule sanitize_fixed_point)
  show "\<not> sublist fence t" unfolding assms(1) by (rule sanitize_fence_free)
  show "strip t = t" unfolding assms(1) by (rule sanitize_stripped)
qed (rule assms(2), rule assms(3))

text \<open>An instance: the output \<^verbatim>\<open>select 1\<close> of a first pass is a fixed point.\<close>

theorem sanitize_idempotent_on_clean_output_witness:
  "sanitize ''Here: select 1;'' = ''select 1'' \<and> sanitize ''select 1'' = ''select 1''"
proof -
  have e: "''select 1'' = sanitize ''Here: select 1;''" by code_simp
  have q: "''select 1'' = [] \<or> (\<not> is_quote (hd ''select 1'') \<and> \<not> is_quote (last ''select 1'')
     \<and> \<not> is_semicolon (last ''select 1''))"
    by (simp add: is_quote_def is_semicolon_def)
  have p: "sublist (codes ''SELECT'') (upper ''select 1'') \<longrightarrow> prefix (codes ''SELECT'') (upper ''select 1'')"
    by (simp add: codes_def upper_def upper_char_def)
  show ?thesis using sanitize_idempotent_on_clean_output [OF e q p] e by simp
qed

text \<open>
  The text \<^verbatim>\<open>SELECT 'a';\<close>: the first pass removes the semicolon and returns
  \<^verbatim>\<open>SELECT 'a'\<close>, the second pass removes the closing quote.
\<close>

theorem sanitize_not_idempotent:
  "sanitize (sanitize (''SELECT '' @ [CHR 0x27, CHR ''a'', CHR 0x27, CHR '';'']))
   \<noteq> sanitize (''SELECT '' @ [CHR 0x27, CHR ''a'', CHR 0x27, CHR '';''])"
  by code_simp

text \<open>
  The third condition is needed as well: after U+00DF the index found in the upper-case
  copy is one too large, the first pass cuts inside the first \<^verbatim>\<open>SELECT\<close> and the second
  pass cuts at the next one.
\<close>

lemma sanitize_shifted_index_not_idempotent:
  "sanitize ([CHR 0xDF] @ '' SELECT SELECT 1'') = ''ELECT SELECT 1''
   \<and> sanitize ''ELECT SELECT 1'' = ''SELECT 1''"
  by code_simp

text \<open>
  Claim C2 (no trailing semicolon in the output). Line 167 removes the semicolons at the
  end first and the white space after that, once each, so a semicolon that was followed
  by white space and another semicolon stays: the text \<^verbatim>\<open>SELECT 1; ;\<close> comes out as
  \<^verbatim>\<open>SELECT 1;\<close>.
\<close>

theorem sanitize_leaves_semicolon:
  "sanitize ''SELECT 1; ;'' = ''SELECT 1;''"
  by code_simp

text \<open>
  Claim C3 (the quote step strips one layer). \<^verbatim>\<open>strip('"\'')\<close> removes every quote
  character at either end, not one layer: a text that neither begins nor ends with a
  quote character, wrapped in \<open>n\<close> copies of a quote character on each side, comes out
  bare, for every \<open>n\<close>.
\<close>

theorem strip_quotes_all_layers:
  assumes "is_quote q"
    and "core = [] \<or> (\<not> is_quote (hd core) \<and> \<not> is_quote (last core))"
  shows "strip_quotes (replicate n q @ core @ replicate n q) = core"
  unfolding strip_quotes_def using assms by (intro strip_chars_wrapped) auto

text \<open>An instance, with three single quotes on each side.\<close>

theorem strip_quotes_all_layers_witness:
  "strip_quotes (replicate 3 (CHR 0x27) @ ''SELECT 1'' @ replicate 3 (CHR 0x27)) = ''SELECT 1''"
proof -
  have q: "is_quote (CHR 0x27)" by (simp add: is_quote_def)
  have c: "''SELECT 1'' = [] \<or> (\<not> is_quote (hd ''SELECT 1'') \<and> \<not> is_quote (last ''SELECT 1''))"
    by (simp add: is_quote_def)
  show ?thesis by (rule strip_quotes_all_layers [OF q c])
qed

text \<open>With two double quotes on each side, the inner layer does not stay.\<close>

theorem strip_quotes_two_layers_counterexample:
  "strip_quotes (replicate 2 (CHR 0x22) @ ''x'' @ replicate 2 (CHR 0x22))
   \<noteq> replicate 1 (CHR 0x22) @ ''x'' @ replicate 1 (CHR 0x22)"
  by code_simp

text \<open>
  Claim C4 (a text without \<^verbatim>\<open>SELECT\<close> is passed through as it is). The other steps still
  apply to such a text. What holds: for a text in which neither \<^verbatim>\<open>SELECT\<close> (in any case)
  nor a fence marker occurs, the cut does nothing and the output is the text with the
  surrounding white space, then the surrounding quote characters, then the semicolons at
  the end and the surrounding white space removed; the text is returned unchanged when it
  has none of these at its ends.
\<close>

theorem sanitize_without_select:
  assumes "\<not> sublist (codes ''SELECT'') (upper s)" and "\<not> sublist fence s"
  shows "sanitize s = strip_semicolon (strip_quotes (strip s))
    \<and> ((s = [] \<or> (\<not> isspace (hd s) \<and> \<not> isspace (last s) \<and> \<not> is_quote (hd s)
            \<and> \<not> is_quote (last s) \<and> \<not> is_semicolon (last s)))
        \<longrightarrow> sanitize s = s)"
proof
  have f: "remove_fences s = strip s" using assms(2) by (rule remove_fences_absent)
  have "sublist (strip_quotes (strip s)) (strip s)"
    unfolding strip_quotes_def by (rule sublist_strip_chars)
  moreover have "sublist (strip s) s" unfolding strip_def by (rule sublist_strip_chars)
  ultimately have "sublist (strip_quotes (strip s)) s" by (rule sublist_order.order_trans)
  then have "sublist (upper (strip_quotes (strip s))) (upper s)" by (rule sublist_upper)
  with assms(1) have "\<not> sublist (codes ''SELECT'') (upper (strip_quotes (strip s)))"
    using sublist_order.order_trans by blast
  then have "cut_to_select (strip_quotes (strip s)) = strip_quotes (strip s)"
    by (simp add: cut_to_select_def)
  with f show "sanitize s = strip_semicolon (strip_quotes (strip s))"
    by (simp add: sanitize_def)
next
  show "(s = [] \<or> (\<not> isspace (hd s) \<and> \<not> isspace (last s) \<and> \<not> is_quote (hd s)
            \<and> \<not> is_quote (last s) \<and> \<not> is_semicolon (last s)))
        \<longrightarrow> sanitize s = s"
  proof
    assume a: "s = [] \<or> (\<not> isspace (hd s) \<and> \<not> isspace (last s) \<and> \<not> is_quote (hd s)
            \<and> \<not> is_quote (last s) \<and> \<not> is_semicolon (last s))"
    show "sanitize s = s"
    proof (rule sanitize_fixed_point)
      show "\<not> sublist fence s" by (rule assms(2))
      show "strip s = s" unfolding strip_def using a by (intro strip_chars_id) auto
      show "s = [] \<or> (\<not> is_quote (hd s) \<and> \<not> is_quote (last s) \<and> \<not> is_semicolon (last s))"
        using a by auto
      show "sublist (codes ''SELECT'') (upper s) \<longrightarrow> prefix (codes ''SELECT'') (upper s)"
        using assms(1) by simp
    qed
  qed
qed

text \<open>An instance: a refusal in plain words is returned as it is.\<close>

theorem sanitize_without_select_witness:
  "sanitize ''I cannot answer that.'' = ''I cannot answer that.''"
proof -
  have 1: "\<not> sublist (codes ''SELECT'') (upper ''I cannot answer that.'')"
    by code_simp
  have 2: "\<not> sublist fence ''I cannot answer that.''" by code_simp
  have 3: "''I cannot answer that.'' = [] \<or>
     (\<not> isspace (hd ''I cannot answer that.'') \<and> \<not> isspace (last ''I cannot answer that.'')
      \<and> \<not> is_quote (hd ''I cannot answer that.'') \<and> \<not> is_quote (last ''I cannot answer that.'')
      \<and> \<not> is_semicolon (last ''I cannot answer that.''))"
    by (simp add: isspace_def is_quote_def is_semicolon_def)
  show ?thesis using sanitize_without_select [OF 1 2] 3 by blast
qed

text \<open>The text \<^verbatim>\<open>hello;\<close> has no \<^verbatim>\<open>SELECT\<close> and loses its semicolon.\<close>

theorem sanitize_without_select_counterexample:
  "\<not> sublist (codes ''SELECT'') (upper ''hello;'') \<and> sanitize ''hello;'' \<noteq> ''hello;''"
  by code_simp

text \<open>
  Where the letter U+00DF does not occur, the upper-case copy has the length of the text
  and the cut starts at the first place where the next six characters are \<^verbatim>\<open>SELECT\<close> in
  some case; the characters kept are those of the text.
\<close>

lemma find_Some_prefix:
  "find sub s = Some i \<Longrightarrow>
   prefix sub (drop i s) \<and> i \<le> length s \<and> (\<forall>k<i. \<not> prefix sub (drop k s))"
proof (induction s arbitrary: i)
  case Nil
  then show ?case by (simp split: if_splits)
next
  case (Cons x xs)
  show ?case
  proof (cases "prefix sub (x # xs)")
    case True
    with Cons.prems show ?thesis by simp
  next
    case False
    with Cons.prems obtain j where j: "find sub xs = Some j" "i = Suc j" by auto
    from Cons.IH [OF j(1)] have
      p: "prefix sub (drop j xs)" and l: "j \<le> length xs"
      and m: "\<forall>k<j. \<not> prefix sub (drop k xs)" by auto
    have "\<forall>k<i. \<not> prefix sub (drop k (x # xs))"
    proof (intro allI impI)
      fix k assume "k < i"
      then show "\<not> prefix sub (drop k (x # xs))"
        using False m j(2) by (cases k) auto
    qed
    with p l j(2) show ?thesis by simp
  qed
qed

lemma upper_without_sharp_s:
  "CHR 0xDF \<notin> set s \<Longrightarrow> upper s = map (\<lambda>c. hd (upper_char c)) s"
proof (induction s)
  case Nil
  then show ?case by (simp add: upper_def)
next
  case (Cons c s)
  then have "c \<noteq> CHR 0xDF" by auto
  then have "of_char c \<noteq> (of_char (CHR 0xDF) :: nat)" by (simp only: of_char_eq_iff) simp
  then have "of_char c \<noteq> (223::nat)" by simp
  then have "upper_char c = [hd (upper_char c)]"
    by (simp add: upper_char_def Let_def)
  with Cons show ?case by (simp add: upper_def)
qed

lemma cut_to_select_without_sharp_s:
  assumes "CHR 0xDF \<notin> set s" and "sublist (codes ''SELECT'') (upper s)"
  shows "\<exists>i. cut_to_select s = drop i s
           \<and> upper (take 6 (cut_to_select s)) = codes ''SELECT''
           \<and> (\<forall>k<i. upper (take 6 (drop k s)) \<noteq> codes ''SELECT'')"
proof -
  from assms(2) obtain i where i: "find (codes ''SELECT'') (upper s) = Some i"
    by (cases "find (codes ''SELECT'') (upper s)") (auto simp: find_None_iff)
  from find_Some_prefix [OF i] have
    p: "prefix (codes ''SELECT'') (drop i (upper s))"
    and m: "\<forall>k<i. \<not> prefix (codes ''SELECT'') (drop k (upper s))" by auto
  have c: "cut_to_select s = drop i s" using assms(2) i by (simp add: cut_to_select_def)
  have u: "upper t = map (\<lambda>c. hd (upper_char c)) t" if "set t \<subseteq> set s" for t
    using that assms(1) by (intro upper_without_sharp_s) auto
  have d: "drop k (upper s) = upper (drop k s)" for k
    using u [of s] u [of "drop k s"] by (simp add: drop_map set_drop_subset)
  have t: "take 6 (upper t) = upper (take 6 t)" if "set t \<subseteq> set s" for t
  proof -
    have "set (take 6 t) \<subseteq> set s" using that set_take_subset by fastforce
    with u [OF that] u [of "take 6 t"] show ?thesis by (simp add: take_map)
  qed
  have l: "length (codes ''SELECT'') = 6" by (simp add: codes_def)
  have e: "prefix (codes ''SELECT'') (upper (drop k s)) \<longleftrightarrow>
           upper (take 6 (drop k s)) = codes ''SELECT''" for k
  proof -
    have "prefix (codes ''SELECT'') (upper (drop k s)) \<longleftrightarrow>
          take 6 (upper (drop k s)) = codes ''SELECT''"
    proof
      assume "prefix (codes ''SELECT'') (upper (drop k s))"
      then obtain r where "upper (drop k s) = codes ''SELECT'' @ r" by (auto simp: prefix_def)
      then show "take 6 (upper (drop k s)) = codes ''SELECT''" using l by simp
    next
      assume "take 6 (upper (drop k s)) = codes ''SELECT''"
      then have "codes ''SELECT'' = take 6 (upper (drop k s))" by simp
      then show "prefix (codes ''SELECT'') (upper (drop k s))"
        by (simp only: take_is_prefix)
    qed
    then show ?thesis using t [of "drop k s"] by (simp add: set_drop_subset)
  qed
  from p have "upper (take 6 (drop i s)) = codes ''SELECT''" by (simp add: d e)
  moreover from m have "\<forall>k<i. upper (take 6 (drop k s)) \<noteq> codes ''SELECT''"
    by (simp add: d e)
  ultimately show ?thesis using c by auto
qed

text \<open>
  Claim C5 (the output starts at the first \<^verbatim>\<open>SELECT\<close>). Lines 163 and 164 look the index
  up in \<^verbatim>\<open>sql_query.upper()\<close> and slice \<^verbatim>\<open>sql_query\<close> with it. The upper-case copy of a text
  with the letter U+00DF before the statement is longer than the text, as that letter
  becomes \<^verbatim>\<open>SS\<close>, so the slice starts one character late: the commentary \<^verbatim>\<open>hei\<close>, U+00DF,
  \<^verbatim>\<open>t:\<close> followed by \<^verbatim>\<open>SELECT 1\<close> comes out as \<^verbatim>\<open>ELECT 1\<close>.
\<close>

theorem sanitize_cuts_inside_select:
  "sanitize (''hei'' @ [CHR 0xDF] @ ''t: SELECT 1'') = ''ELECT 1''"
  by code_simp

section \<open>Properties of the Model Selector\<close>

lemma find_preferred_in_set:
  "find_preferred ps avail = Some a \<Longrightarrow> a \<in> set avail"
proof (induction ps)
  case Nil
  then show ?case by simp
next
  case (Cons p ps)
  show ?case
  proof (cases "List.find (\<lambda>available. sublist p available) avail")
    case None
    with Cons show ?thesis by simp
  next
    case (Some b)
    with Cons.prems have "a = b" by simp
    moreover from Some have "b \<in> set avail" by (auto simp: find_Some_iff)
    ultimately show ?thesis by simp
  qed
qed

lemma find_first_match:
  assumes "set xs = {a, b}" and "P a" and "\<not> P b"
  shows "List.find P xs = Some a"
proof (cases "List.find P xs")
  case None
  then have "\<forall>x\<in>set xs. \<not> P x" by (auto simp: List.find_None_iff)
  with assms show ?thesis by auto
next
  case (Some y)
  then have "P y \<and> y \<in> set xs" by (auto simp: find_Some_iff)
  with assms Some show ?thesis by auto
qed

lemma find_no_match:
  assumes "\<forall>x\<in>set xs. \<not> P x"
  shows "List.find P xs = None"
  using assms by (simp add: List.find_None_iff)

lemma find_preferred_example:
  assumes "set avail = {''gemini-1.5-pro-001'', ''gemini-1.0-pro''}"
  shows "find_preferred preferred_models avail = Some ''gemini-1.5-pro-001''"
proof -
  have n1: "\<not> sublist ''gemini-1.5-flash'' ''gemini-1.5-pro-001''" by code_simp
  have n2: "\<not> sublist ''gemini-1.5-flash'' ''gemini-1.0-pro''" by code_simp
  have y: "sublist ''gemini-1.5-pro'' ''gemini-1.5-pro-001''" by code_simp
  have n3: "\<not> sublist ''gemini-1.5-pro'' ''gemini-1.0-pro''" by code_simp
  have 1: "List.find (\<lambda>available. sublist ''gemini-1.5-flash'' available) avail = None"
    by (rule find_no_match) (use assms n1 n2 in auto)
  have 2: "List.find (\<lambda>available. sublist ''gemini-1.5-pro'' available) avail
            = Some ''gemini-1.5-pro-001''"
    using assms y n3 by (rule find_first_match)
  show ?thesis unfolding preferred_models_def by (simp only: find_preferred.simps 1 2 option.case)
qed

lemma select_from_catalog_dict:
  assumes "map_of items ''models'' = Some (JArr entries)"
    and "collect_available entries [] = Inr avail"
  shows "select_from_catalog (Response 200 body (Inr (JObj items))) =
    (case find_preferred preferred_models avail of
       Some available \<Rightarrow> Inr (Some available)
     | None \<Rightarrow> (case avail of [] \<Rightarrow> Inr None | first # others \<Rightarrow> Inr (Some first)))"
proof -
  have "''models'' \<in> set (map fst items)"
    using assms(1) by (metis map_of_eq_None_iff option.distinct(1) set_map)
  then show ?thesis using assms
    by (simp add: select_from_catalog_def bind_exn_def)
qed

lemma get_available_model_returns: "\<exists>m. get_available_model r = Inr m"
  by (auto simp: get_available_model_def try_except_def bind_exn_def is_Exception_def
           split: sum.splits option.splits)

text \<open>
  Claim C7 (the Model Selector). With a catalog whose entries that support
  \<^verbatim>\<open>generateContent\<close> are \<^verbatim>\<open>gemini-1.5-pro-001\<close> and \<^verbatim>\<open>gemini-1.0-pro\<close>, in any order, the
  selector returns \<^verbatim>\<open>gemini-1.5-pro-001\<close>. With a catalog that has no such entry or no
  \<^verbatim>\<open>models\<close> key, with a request that raises, with a status other than 200 and with a body
  that is not JSON, it returns the default \<^verbatim>\<open>gemini-1.5-flash\<close>. Whatever the request
  does, the selector returns a model and raises nothing.
\<close>

theorem model_selector:
  "(map_of items ''models'' = Some (JArr entries)
      \<and> collect_available entries [] = Inr available_models
      \<and> set available_models = {''gemini-1.5-pro-001'', ''gemini-1.0-pro''}
    \<longrightarrow> get_available_model (Response 200 body (Inr (JObj items))) = Inr ''gemini-1.5-pro-001'')
   \<and> (map_of items ''models'' = Some (JArr entries) \<and> collect_available entries [] = Inr []
    \<longrightarrow> get_available_model (Response 200 body (Inr (JObj items))) = Inr ''gemini-1.5-flash'')
   \<and> (map_of items ''models'' = None
    \<longrightarrow> get_available_model (Response 200 body (Inr (JObj items))) = Inr ''gemini-1.5-flash'')
   \<and> get_available_model (Raised e) = Inr ''gemini-1.5-flash''
   \<and> (status_code \<noteq> 200
    \<longrightarrow> get_available_model (Response status_code body js) = Inr ''gemini-1.5-flash'')
   \<and> get_available_model (Response status_code body (Inl e)) = Inr ''gemini-1.5-flash''
   \<and> (\<exists>model. get_available_model r = Inr model)"
proof (intro conjI impI)
  assume a: "map_of items ''models'' = Some (JArr entries)
      \<and> collect_available entries [] = Inr available_models
      \<and> set available_models = {''gemini-1.5-pro-001'', ''gemini-1.0-pro''}"
  then have "select_from_catalog (Response 200 body (Inr (JObj items)))
      = Inr (Some ''gemini-1.5-pro-001'')"
    by (simp add: select_from_catalog_dict find_preferred_example)
  then show "get_available_model (Response 200 body (Inr (JObj items))) = Inr ''gemini-1.5-pro-001''"
    by (simp add: get_available_model_def try_except_def bind_exn_def)
next
  assume a: "map_of items ''models'' = Some (JArr entries) \<and> collect_available entries [] = Inr []"
  have "find_preferred preferred_models [] = None"
    by (simp add: preferred_models_def)
  with a have "select_from_catalog (Response 200 body (Inr (JObj items))) = Inr None"
    by (simp add: select_from_catalog_dict)
  then show "get_available_model (Response 200 body (Inr (JObj items))) = Inr ''gemini-1.5-flash''"
    by (simp add: get_available_model_def try_except_def bind_exn_def default_model_def)
next
  assume "map_of items ''models'' = None"
  then have "''models'' \<notin> set (map fst items)"
    by (metis map_of_eq_None_iff set_map)
  then have "select_from_catalog (Response 200 body (Inr (JObj items))) = Inr None"
    by (simp add: select_from_catalog_def bind_exn_def)
  then show "get_available_model (Response 200 body (Inr (JObj items))) = Inr ''gemini-1.5-flash''"
    by (simp add: get_available_model_def try_except_def bind_exn_def default_model_def)
next
  show "get_available_model (Raised e) = Inr ''gemini-1.5-flash''"
    by (simp add: get_available_model_def select_from_catalog_def try_except_def bind_exn_def
        is_Exception_def default_model_def)
next
  assume "status_code \<noteq> 200"
  then show "get_available_model (Response status_code body js) = Inr ''gemini-1.5-flash''"
    by (simp add: get_available_model_def select_from_catalog_def try_except_def bind_exn_def
        default_model_def)
next
  show "get_available_model (Response status_code body (Inl e)) = Inr ''gemini-1.5-flash''"
    by (simp add: get_available_model_def select_from_catalog_def try_except_def bind_exn_def
        is_Exception_def default_model_def)
next
  show "\<exists>model. get_available_model r = Inr model" by (rule get_available_model_returns)
qed

text \<open>
  Instances: a catalog of three models with the provider's prefix, an empty catalog, an
  answer without a catalog, and a failed request.
\<close>

theorem model_selector_witness:
  "get_available_model (Response 200 []
      (Inr (JObj [(''models'', JArr
         [JObj [(''name'', JStr ''models/gemini-1.0-pro''),
                (''supportedGenerationMethods'', JArr [JStr ''generateContent''])],
          JObj [(''name'', JStr ''models/gemini-1.5-pro-001''),
                (''supportedGenerationMethods'', JArr [JStr ''generateContent'', JStr ''countTokens''])],
          JObj [(''name'', JStr ''models/embedding-001''),
                (''supportedGenerationMethods'', JArr [JStr ''embedContent''])]])])))
     = Inr ''gemini-1.5-pro-001''
   \<and> get_available_model (Response 200 [] (Inr (JObj [(''models'', JArr [])])))
     = Inr ''gemini-1.5-flash''
   \<and> get_available_model (Response 200 [] (Inr (JObj [(''error'', JStr ''quota'')])))
     = Inr ''gemini-1.5-flash''
   \<and> get_available_model (Response 503 ''unavailable'' (Inl (ValueError ''no JSON'')))
     = Inr ''gemini-1.5-flash''"
proof -
  let ?entries =
    "[JObj [(''name'', JStr ''models/gemini-1.0-pro''),
            (''supportedGenerationMethods'', JArr [JStr ''generateContent''])],
      JObj [(''name'', JStr ''models/gemini-1.5-pro-001''),
            (''supportedGenerationMethods'', JArr [JStr ''generateContent'', JStr ''countTokens''])],
      JObj [(''name'', JStr ''models/embedding-001''),
            (''supportedGenerationMethods'', JArr [JStr ''embedContent''])]]"
  have c: "collect_available ?entries [] = Inr [''gemini-1.0-pro'', ''gemini-1.5-pro-001'']"
    by code_simp
  have s: "set [''gemini-1.0-pro'', ''gemini-1.5-pro-001'']
             = {''gemini-1.5-pro-001'', ''gemini-1.0-pro''}"
    by auto
  have m: "map_of [(''models'', JArr ?entries)] ''models'' = Some (JArr ?entries)" by simp
  have 1: "get_available_model (Response 200 [] (Inr (JObj [(''models'', JArr ?entries)])))
             = Inr ''gemini-1.5-pro-001''"
    using model_selector [where items = "[(''models'', JArr ?entries)]" and entries = "?entries"
        and available_models = "[''gemini-1.0-pro'', ''gemini-1.5-pro-001'']" and body = "[]"]
      c s m by blast
  have e: "map_of [(''models'', JArr [])] ''models'' = Some (JArr [])
             \<and> collect_available [] [] = Inr []" by simp
  have 2: "get_available_model (Response 200 [] (Inr (JObj [(''models'', JArr [])])))
             = Inr ''gemini-1.5-flash''"
    using model_selector [where items = "[(''models'', JArr [])]" and entries = "[]" and body = "[]"]
      e by blast
  have n: "map_of [(''error'', JStr ''quota'')] ''models'' = None" by simp
  have 3: "get_available_model (Response 200 [] (Inr (JObj [(''error'', JStr ''quota'')])))
             = Inr ''gemini-1.5-flash''"
    using model_selector [where items = "[(''error'', JStr ''quota'')]" and body = "[]"] n
    by blast
  have f: "(503::int) \<noteq> 200" by simp
  have 4: "get_available_model (Response 503 ''unavailable'' (Inl (ValueError ''no JSON'')))
             = Inr ''gemini-1.5-flash''"
    using model_selector [where status_code = 503 and body = "''unavailable''"
        and js = "Inl (ValueError ''no JSON'')"] f by blast
  from 1 2 3 4 show ?thesis by blast
qed

lemma collect_available_names:
  "collect_available entries acc = Inr avail \<Longrightarrow> m \<in> set avail \<Longrightarrow>
   m \<in> set acc \<or>
   (\<exists>entry\<in>set entries. \<exists>name. dict_get entry ''name'' (JStr []) = Inr (JStr name)
       \<and> m = remove_all ''models/'' name)"
proof (induction entries arbitrary: acc)
  case Nil
  then show ?case by simp
next
  case (Cons model rest)
  from Cons.prems(1) obtain name where n: "dict_get model ''name'' (JStr []) = Inr name"
    by (auto split: sum.splits)
  from Cons.prems(1) n obtain model_name where r: "str_replace name ''models/'' = Inr model_name"
    by (auto split: sum.splits)
  then obtain s where s: "name = JStr s" "model_name = remove_all ''models/'' s"
    by (cases name) auto
  from Cons.prems(1) n r obtain acc' where
    rec: "collect_available rest acc' = Inr avail" and
    acc': "acc' = acc \<or> acc' = acc @ [model_name]"
    by (auto split: sum.splits if_splits)
  from Cons.IH [OF rec Cons.prems(2)] show ?case
  proof
    assume "m \<in> set acc'"
    with acc' have "m \<in> set acc \<or> m = model_name" by auto
    then show ?thesis using n s by auto
  next
    assume "\<exists>entry\<in>set rest. \<exists>name. dict_get entry ''name'' (JStr []) = Inr (JStr name)
       \<and> m = remove_all ''models/'' name"
    then show ?thesis by auto
  qed
qed

lemma select_from_catalog_Some:
  assumes "select_from_catalog r = Inr (Some m)"
  shows "\<exists>body models_data models entries avail.
           r = Response 200 body (Inr models_data)
           \<and> getitem models_data ''models'' = Inr models
           \<and> iterate models = Inr entries
           \<and> collect_available entries [] = Inr avail
           \<and> m \<in> set avail"
proof (cases r)
  case (Raised e)
  with assms show ?thesis by (simp add: select_from_catalog_def)
next
  case (Response status_code body js)
  with assms have st: "status_code = 200"
    by (auto simp: select_from_catalog_def split: if_splits)
  from assms Response st obtain models_data where js: "js = Inr models_data"
    by (cases js) (auto simp: select_from_catalog_def bind_exn_def)
  from assms Response st js have hm: "contains ''models'' models_data = Inr True"
    by (auto simp: select_from_catalog_def bind_exn_def split: sum.splits if_splits)
  from assms Response st js hm obtain models where
    g: "getitem models_data ''models'' = Inr models"
    by (auto simp: select_from_catalog_def bind_exn_def split: sum.splits)
  from assms Response st js hm g obtain entries where it: "iterate models = Inr entries"
    by (auto simp: select_from_catalog_def bind_exn_def split: sum.splits)
  from assms Response st js hm g it obtain avail where
    c: "collect_available entries [] = Inr avail"
    by (auto simp: select_from_catalog_def bind_exn_def split: sum.splits)
  from assms Response st js hm g it c have
    "(case find_preferred preferred_models avail of
        Some available \<Rightarrow> Inr (Some available)
      | None \<Rightarrow> (case avail of [] \<Rightarrow> Inr None | first # others \<Rightarrow> Inr (Some first)))
     = (Inr (Some m) :: exn + string option)"
    by (simp add: select_from_catalog_def bind_exn_def)
  then have "m \<in> set avail"
    by (auto split: option.splits list.splits dest: find_preferred_in_set)
  with Response st js g it c show ?thesis by blast
qed

text \<open>
  Claim C10 (the selector removes a leading \<^verbatim>\<open>models/\<close> and never returns a name with that
  prefix). Line 54 calls \<^verbatim>\<open>replace('models/', '')\<close>, which removes every occurrence of
  \<^verbatim>\<open>models/\<close> in one pass from the left, wherever it is. What holds: the identifier
  returned is the default or the name of a catalog entry with every occurrence removed;
  for a name that is \<^verbatim>\<open>models/\<close> followed by a rest in which \<^verbatim>\<open>models/\<close> does not occur,
  that is the rest, which does not begin with \<^verbatim>\<open>models/\<close>.
\<close>

theorem model_names_normalized:
  "(get_available_model r = Inr m \<longrightarrow>
      m = default_model \<or>
      (\<exists>body models_data models entries entry name.
          r = Response 200 body (Inr models_data)
          \<and> getitem models_data ''models'' = Inr models
          \<and> iterate models = Inr entries
          \<and> entry \<in> set entries
          \<and> dict_get entry ''name'' (JStr []) = Inr (JStr name)
          \<and> m = remove_all ''models/'' name))
   \<and> (\<not> sublist ''models/'' rest \<longrightarrow>
        remove_all ''models/'' (''models/'' @ rest) = rest \<and> \<not> prefix ''models/'' rest)"
proof (intro conjI impI)
  assume a: "get_available_model r = Inr m"
  show "m = default_model \<or>
      (\<exists>body models_data models entries entry name.
          r = Response 200 body (Inr models_data)
          \<and> getitem models_data ''models'' = Inr models
          \<and> iterate models = Inr entries
          \<and> entry \<in> set entries
          \<and> dict_get entry ''name'' (JStr []) = Inr (JStr name)
          \<and> m = remove_all ''models/'' name)"
  proof (cases "m = default_model")
    case True
    then show ?thesis by simp
  next
    case False
    with a have "select_from_catalog r = Inr (Some m)"
      by (auto simp: get_available_model_def try_except_def bind_exn_def
               split: sum.splits option.splits if_splits)
    from select_from_catalog_Some [OF this] obtain body models_data models entries avail where
      r: "r = Response 200 body (Inr models_data)"
      and g: "getitem models_data ''models'' = Inr models"
      and it: "iterate models = Inr entries"
      and c: "collect_available entries [] = Inr avail"
      and m: "m \<in> set avail" by blast
    from collect_available_names [OF c m] obtain entry name where
      "entry \<in> set entries" "dict_get entry ''name'' (JStr []) = Inr (JStr name)"
      "m = remove_all ''models/'' name" by auto
    with r g it show ?thesis by blast
  qed
next
  assume n: "\<not> sublist ''models/'' rest"
  have "remove_all ''models/'' (''models/'' @ rest) = remove_all ''models/'' rest"
    by (rule remove_all_hit) simp
  also have "\<dots> = rest" using n by (rule remove_all_absent)
  finally show "remove_all ''models/'' (''models/'' @ rest) = rest" .
next
  assume n: "\<not> sublist ''models/'' rest"
  show "\<not> prefix ''models/'' rest"
  proof
    assume "prefix ''models/'' rest"
    then have "sublist ''models/'' rest" by (rule prefix_imp_sublist)
    with n show False by simp
  qed
qed

text \<open>An instance: the catalog name \<^verbatim>\<open>models/gemini-pro\<close>.\<close>

theorem model_names_normalized_witness:
  "get_available_model (Response 200 []
      (Inr (JObj [(''models'', JArr
         [JObj [(''name'', JStr ''models/gemini-pro''),
                (''supportedGenerationMethods'', JArr [JStr ''generateContent''])]])])))
     = Inr ''gemini-pro''
   \<and> remove_all ''models/'' (''models/'' @ ''gemini-pro'') = ''gemini-pro''
   \<and> \<not> prefix ''models/'' ''gemini-pro''
   \<and> (\<exists>name. ''gemini-pro'' = remove_all ''models/'' name)"
proof -
  let ?r = "Response 200 []
      (Inr (JObj [(''models'', JArr
         [JObj [(''name'', JStr ''models/gemini-pro''),
                (''supportedGenerationMethods'', JArr [JStr ''generateContent''])]])]))"
  have g: "get_available_model ?r = Inr ''gemini-pro''" by code_simp
  have d: "''gemini-pro'' \<noteq> default_model" by (simp add: default_model_def)
  have n: "\<not> sublist ''models/'' ''gemini-pro''" by code_simp
  have "\<exists>name. ''gemini-pro'' = remove_all ''models/'' name"
    using model_names_normalized [of ?r "''gemini-pro''"] g d by blast
  moreover have "remove_all ''models/'' (''models/'' @ ''gemini-pro'') = ''gemini-pro''
      \<and> \<not> prefix ''models/'' ''gemini-pro''"
    using model_names_normalized [where rest = "''gemini-pro''"] n by blast
  ultimately show ?thesis using g by blast
qed

text \<open>
  The pass does not look at what a removal leaves: the catalog name \<^verbatim>\<open>modmodels/els/x\<close>
  becomes \<^verbatim>\<open>models/x\<close>, and the selector returns it.
\<close>

theorem model_name_keeps_prefix_counterexample:
  "get_available_model (Response 200 []
      (Inr (JObj [(''models'', JArr
         [JObj [(''name'', JStr ''modmodels/els/x''),
                (''supportedGenerationMethods'', JArr [JStr ''generateContent''])]])])))
     = Inr ''models/x''"
  by code_simp

section \<open>Properties of the Completion Client\<close>

lemma generate_sql_query_completion_returned:
  "request_completion r = Inr c \<Longrightarrow> generate_sql_query_completion str_exn r = Inr c"
  by (simp add: generate_sql_query_completion_def try_except_def)

lemma generate_sql_query_completion_raised:
  "request_completion r = Inl e \<Longrightarrow>
   generate_sql_query_completion str_exn r =
     Inr (if is_RequestException e then Network_error (str_exn e)
          else Generation_error (str_exn e))"
  by (simp add: generate_sql_query_completion_def try_except_def is_Exception_def)

lemma generate_sql_query_completion_total:
  "\<exists>c. generate_sql_query_completion str_exn r = Inr c"
proof (cases "request_completion r")
  case (Inl e)
  then show ?thesis by (simp add: generate_sql_query_completion_raised)
next
  case (Inr c)
  then show ?thesis by (simp add: generate_sql_query_completion_returned)
qed

lemma has_candidates_True:
  assumes "has_candidates result = Inr True"
  shows "\<exists>candidates n. getitem result ''candidates'' = Inr candidates
           \<and> len candidates = Inr n \<and> 0 < n"
  using assms
  by (auto simp: has_candidates_def bind_exn_def split: sum.splits if_splits)

lemma request_completion_Query:
  assumes "request_completion r = Inr (Query sql_query)"
  shows "\<exists>body result candidates n extracted.
           r = Response 200 body (Inr result)
           \<and> getitem result ''candidates'' = Inr candidates
           \<and> len candidates = Inr n \<and> 0 < n
           \<and> candidate_text result = Inr extracted
           \<and> sql_query = sanitize extracted"
proof (cases r)
  case (Raised e)
  with assms show ?thesis by (simp add: request_completion_def)
next
  case (Response status_code body js)
  with assms have st: "status_code = 200"
    by (auto simp: request_completion_def split: if_splits)
  from assms Response st obtain result where js: "js = Inr result"
    by (cases js) (auto simp: request_completion_def bind_exn_def)
  from assms Response st js have hc: "has_candidates result = Inr True"
    by (auto simp: request_completion_def bind_exn_def split: sum.splits if_splits)
  from assms Response st js hc obtain extracted where
    ct: "candidate_text result = Inr extracted" and q: "sql_query = sanitize extracted"
    by (auto simp: request_completion_def bind_exn_def split: sum.splits)
  from has_candidates_True [OF hc] obtain candidates n where
    "getitem result ''candidates'' = Inr candidates" "len candidates = Inr n" "0 < n"
    by blast
  with Response st js ct q show ?thesis by blast
qed

lemma has_candidates_absent:
  assumes "map_of items ''candidates'' = None \<or> map_of items ''candidates'' = Some (JArr [])"
  shows "has_candidates (JObj items) = Inr False"
  using assms
proof
  assume "map_of items ''candidates'' = None"
  then have "''candidates'' \<notin> set (map fst items)"
    by (metis map_of_eq_None_iff set_map)
  then show ?thesis by (simp add: has_candidates_def bind_exn_def)
next
  assume a: "map_of items ''candidates'' = Some (JArr [])"
  then have "''candidates'' \<in> set (map fst items)"
    by (metis map_of_eq_None_iff option.distinct(1) set_map)
  with a show ?thesis by (simp add: has_candidates_def bind_exn_def)
qed

lemma error_results_recognized:
  "\<forall>q. c \<noteq> Query q \<Longrightarrow> is_error_result (returned c)"
  by (cases c) (simp_all add: is_error_result_def)

text \<open>
  Claim C8 (the results of the Completion Client). A status other than 200 gives the
  string \<^verbatim>\<open>API Error\<close> with the status code and the body; an answer without a
  \<^verbatim>\<open>candidates\<close> key or with an empty list of candidates gives \<^verbatim>\<open>Error: No response
  generated\<close>; an exception raised by the request or while the answer is read gives
  \<^verbatim>\<open>Network error:\<close> with its text when it is a \<^verbatim>\<open>RequestException\<close> and \<^verbatim>\<open>Error generating
  query:\<close> with its text otherwise. The sanitized text of a candidate is returned only
  for status 200 and a \<^verbatim>\<open>candidates\<close> value of positive length. The function always
  returns one of these five, and on each of the four error results the loop of \<^verbatim>\<open>main\<close>
  prints the string and goes on to the next question, without executing anything.
\<close>

theorem completion_client_results:
  "(status_code \<noteq> 200 \<longrightarrow>
      generate_sql_query str_exn (Response status_code body js)
        = Inr (''API Error '' @ str_int status_code @ '': '' @ body))
   \<and> (map_of items ''candidates'' = None \<or> map_of items ''candidates'' = Some (JArr []) \<longrightarrow>
      generate_sql_query str_exn (Response 200 body (Inr (JObj items)))
        = Inr ''Error: No response generated'')
   \<and> request_completion (Raised e) = Inl e
   \<and> (request_completion r = Inl e \<and> is_RequestException e \<longrightarrow>
      generate_sql_query str_exn r = Inr (''Network error: '' @ str_exn e))
   \<and> (request_completion r = Inl e \<and> \<not> is_RequestException e \<longrightarrow>
      generate_sql_query str_exn r = Inr (''Error generating query: '' @ str_exn e))
   \<and> (generate_sql_query_completion str_exn r = Inr (Query sql_query) \<longrightarrow>
      (\<exists>body result candidates n extracted.
          r = Response 200 body (Inr result)
          \<and> getitem result ''candidates'' = Inr candidates
          \<and> len candidates = Inr n \<and> 0 < n
          \<and> candidate_text result = Inr extracted
          \<and> sql_query = sanitize extracted))
   \<and> (\<exists>c. generate_sql_query_completion str_exn r = Inr c
          \<and> generate_sql_query str_exn r = Inr (returned c))
   \<and> (generate_sql_query_completion str_exn r = Inr c \<and> (\<forall>q. c \<noteq> Query q) \<longrightarrow>
      main_turn (returned c) confirmed = [Print_error (returned c)])"
proof (intro conjI impI)
  assume "status_code \<noteq> 200"
  then have "request_completion (Response status_code body js) = Inr (Api_error status_code body)"
    by (simp add: request_completion_def)
  then show "generate_sql_query str_exn (Response status_code body js)
        = Inr (''API Error '' @ str_int status_code @ '': '' @ body)"
    by (simp add: generate_sql_query_def generate_sql_query_completion_returned bind_exn_def)
next
  assume "map_of items ''candidates'' = None \<or> map_of items ''candidates'' = Some (JArr [])"
  then have "has_candidates (JObj items) = Inr False" by (rule has_candidates_absent)
  then have "request_completion (Response 200 body (Inr (JObj items))) = Inr No_response"
    by (simp add: request_completion_def bind_exn_def)
  then show "generate_sql_query str_exn (Response 200 body (Inr (JObj items)))
        = Inr ''Error: No response generated''"
    by (simp add: generate_sql_query_def generate_sql_query_completion_returned bind_exn_def)
next
  show "request_completion (Raised e) = Inl e" by (simp add: request_completion_def)
next
  assume "request_completion r = Inl e \<and> is_RequestException e"
  then show "generate_sql_query str_exn r = Inr (''Network error: '' @ str_exn e)"
    by (simp add: generate_sql_query_def generate_sql_query_completion_raised bind_exn_def)
next
  assume "request_completion r = Inl e \<and> \<not> is_RequestException e"
  then show "generate_sql_query str_exn r = Inr (''Error generating query: '' @ str_exn e)"
    by (simp add: generate_sql_query_def generate_sql_query_completion_raised bind_exn_def)
next
  assume a: "generate_sql_query_completion str_exn r = Inr (Query sql_query)"
  have "request_completion r = Inr (Query sql_query)"
  proof (cases "request_completion r")
    case (Inl e)
    with a show ?thesis by (simp add: generate_sql_query_completion_raised split: if_splits)
  next
    case (Inr c)
    with a show ?thesis by (simp add: generate_sql_query_completion_returned)
  qed
  then show "\<exists>body result candidates n extracted.
          r = Response 200 body (Inr result)
          \<and> getitem result ''candidates'' = Inr candidates
          \<and> len candidates = Inr n \<and> 0 < n
          \<and> candidate_text result = Inr extracted
          \<and> sql_query = sanitize extracted"
    by (rule request_completion_Query)
next
  from generate_sql_query_completion_total obtain c where
    c: "generate_sql_query_completion str_exn r = Inr c" by blast
  then have "generate_sql_query str_exn r = Inr (returned c)"
    by (simp add: generate_sql_query_def bind_exn_def)
  with c show "\<exists>c. generate_sql_query_completion str_exn r = Inr c
          \<and> generate_sql_query str_exn r = Inr (returned c)" by blast
next
  assume "generate_sql_query_completion str_exn r = Inr c \<and> (\<forall>q. c \<noteq> Query q)"
  then have "is_error_result (returned c)" by (simp add: error_results_recognized)
  then show "main_turn (returned c) confirmed = [Print_error (returned c)]"
    by (simp add: main_turn_def)
qed

text \<open>Instances of each case.\<close>

theorem completion_client_results_witness:
  "generate_sql_query (\<lambda>e. ''timed out'') (Response 500 ''overloaded'' (Inl (ValueError ''no JSON'')))
     = Inr ''API Error 500: overloaded''
   \<and> generate_sql_query (\<lambda>e. ''timed out'') (Response 200 ''{}'' (Inr (JObj [])))
     = Inr ''Error: No response generated''
   \<and> generate_sql_query (\<lambda>e. ''timed out'') (Raised (RequestException ''timeout''))
     = Inr ''Network error: timed out''
   \<and> generate_sql_query (\<lambda>e. ''timed out'') (Raised TypeError)
     = Inr ''Error generating query: timed out''
   \<and> candidate_text
        (JObj [(''candidates'', JArr [JObj [(''content'',
           JObj [(''parts'', JArr [JObj [(''text'', JStr ''SELECT 1;'')]])])]])])
     = Inr ''SELECT 1;''
   \<and> main_turn ''Error: No response generated'' True
     = [Print_error ''Error: No response generated'']"
proof -
  let ?str = "\<lambda>e::exn. ''timed out''"
  let ?ok = "JObj [(''candidates'', JArr [JObj [(''content'',
           JObj [(''parts'', JArr [JObj [(''text'', JStr ''SELECT 1;'')]])])]])]"
  note t = completion_client_results
  have "(500::int) \<noteq> 200" by simp
  with t [where status_code = 500 and body = "''overloaded''"
      and js = "Inl (ValueError ''no JSON'')" and str_exn = ?str]
  have "generate_sql_query ?str (Response 500 ''overloaded'' (Inl (ValueError ''no JSON'')))
     = Inr (''API Error '' @ str_int 500 @ '': '' @ ''overloaded'')" by blast
  moreover have "str_int 500 = ''500''" by code_simp
  ultimately have 1: "generate_sql_query ?str (Response 500 ''overloaded'' (Inl (ValueError ''no JSON'')))
     = Inr ''API Error 500: overloaded''" by simp
  have "map_of ([] :: (string \<times> json) list) ''candidates'' = None" by simp
  with t [where items = "[]" and body = "''{}''" and str_exn = ?str]
  have 2: "generate_sql_query ?str (Response 200 ''{}'' (Inr (JObj [])))
     = Inr ''Error: No response generated''" by blast
  have r: "request_completion (Raised (RequestException ''timeout'')) = Inl (RequestException ''timeout'')
      \<and> is_RequestException (RequestException ''timeout'')"
    by (simp add: request_completion_def)
  with t [where r = "Raised (RequestException ''timeout'')" and e = "RequestException ''timeout''"
      and str_exn = ?str]
  have "generate_sql_query ?str (Raised (RequestException ''timeout''))
     = Inr (''Network error: '' @ ''timed out'')" by blast
  then have 3: "generate_sql_query ?str (Raised (RequestException ''timeout''))
     = Inr ''Network error: timed out''" by simp
  have o: "request_completion (Raised TypeError) = Inl TypeError \<and> \<not> is_RequestException TypeError"
    by (simp add: request_completion_def)
  with t [where r = "Raised TypeError" and e = TypeError and str_exn = ?str]
  have "generate_sql_query ?str (Raised TypeError)
     = Inr (''Error generating query: '' @ ''timed out'')" by blast
  then have 4: "generate_sql_query ?str (Raised TypeError)
     = Inr ''Error generating query: timed out''" by simp
  have q: "generate_sql_query_completion ?str (Response 200 [] (Inr ?ok)) = Inr (Query ''SELECT 1'')"
    by code_simp
  with t [where r = "Response 200 [] (Inr ?ok)" and sql_query = "''SELECT 1''" and str_exn = ?str]
  obtain extracted where e: "candidate_text ?ok = Inr extracted" "''SELECT 1'' = sanitize extracted"
    by blast
  have "candidate_text ?ok = Inr ''SELECT 1;''" by code_simp
  then have 5: "candidate_text ?ok = Inr ''SELECT 1;''" using e by simp
  have n: "generate_sql_query_completion ?str (Response 200 ''{}'' (Inr (JObj []))) = Inr No_response
      \<and> (\<forall>q. No_response \<noteq> Query q)"
    by (simp add: generate_sql_query_completion_def request_completion_def has_candidates_def
        try_except_def bind_exn_def)
  with t [where r = "Response 200 ''{}'' (Inr (JObj []))" and c = No_response and str_exn = ?str
      and confirmed = True]
  have "main_turn (returned No_response) True = [Print_error (returned No_response)]" by blast
  then have 6: "main_turn ''Error: No response generated'' True
     = [Print_error ''Error: No response generated'']" by simp
  from 1 2 3 4 5 6 show ?thesis by blast
qed

section \<open>Properties of the Result Formatter\<close>

lemma widen_row_ok:
  "i + length row \<le> length widths \<Longrightarrow>
   \<exists>w. widen_row str widths i row = Inr w \<and> length w = length widths
     \<and> (\<forall>j<length widths. w ! j =
           (if i \<le> j \<and> j < i + length row
            then max (widths ! j) (length (str (row ! (j - i))))
            else widths ! j))"
proof (induction row arbitrary: widths i)
  case Nil
  then show ?case by simp
next
  case (Cons val row)
  let ?w = "widths[i := max (widths ! i) (length (str val))]"
  from Cons.prems have i: "i < length widths" by simp
  from Cons.prems have "Suc i + length row \<le> length ?w" by simp
  from Cons.IH [OF this] obtain w where
    w: "widen_row str ?w (Suc i) row = Inr w" and l: "length w = length ?w"
    and v: "\<forall>j<length ?w. w ! j =
           (if Suc i \<le> j \<and> j < Suc i + length row
            then max (?w ! j) (length (str (row ! (j - Suc i))))
            else ?w ! j)" by blast
  have "widen_row str widths i (val # row) = Inr w" using i w by simp
  moreover have "length w = length widths" using l by simp
  moreover have "\<forall>j<length widths. w ! j =
           (if i \<le> j \<and> j < i + length (val # row)
            then max (widths ! j) (length (str ((val # row) ! (j - i))))
            else widths ! j)"
  proof (intro allI impI)
    fix j assume j: "j < length widths"
    show "w ! j = (if i \<le> j \<and> j < i + length (val # row)
            then max (widths ! j) (length (str ((val # row) ! (j - i))))
            else widths ! j)"
    proof (cases "j = i")
      case True
      with v j i show ?thesis by simp
    next
      case False
      then have "(val # row) ! (j - i) = row ! (j - Suc i)" if "i \<le> j"
        using that by (simp add: nth_Cons')
      with v j False show ?thesis by auto
    qed
  qed
  ultimately show ?case by blast
qed

lemma widen_row_fail:
  "length widths < i + length row \<Longrightarrow> i \<le> length widths \<Longrightarrow>
   widen_row str widths i row = Inl IndexError"
proof (induction row arbitrary: widths i)
  case Nil
  then show ?case by simp
next
  case (Cons val row)
  show ?case
  proof (cases "i < length widths")
    case True
    let ?w = "widths[i := max (widths ! i) (length (str val))]"
    have "length ?w < Suc i + length row" using Cons.prems(1) by simp
    moreover have "Suc i \<le> length ?w" using True by simp
    ultimately have "widen_row str ?w (Suc i) row = Inl IndexError" by (rule Cons.IH)
    with True show ?thesis by simp
  next
    case False
    then show ?thesis by simp
  qed
qed

lemma widen_rows_ok:
  "\<forall>row\<in>set results. length row \<le> length widths \<Longrightarrow>
   \<exists>w. widen_rows str widths results = Inr w \<and> length w = length widths
     \<and> (\<forall>j<length widths. w ! j =
           fold max [length (str (row ! j)). row \<leftarrow> results, j < length row] (widths ! j))"
proof (induction results arbitrary: widths)
  case Nil
  then show ?case by simp
next
  case (Cons row results)
  from Cons.prems have "0 + length row \<le> length widths" by simp
  from widen_row_ok [OF this, of str] obtain w1 where
    w1: "widen_row str widths 0 row = Inr w1" and l1: "length w1 = length widths"
    and v1: "\<forall>j<length widths. w1 ! j =
           (if j < length row then max (widths ! j) (length (str (row ! j))) else widths ! j)"
    by auto
  from Cons.prems l1 have "\<forall>row\<in>set results. length row \<le> length w1" by simp
  from Cons.IH [OF this] obtain w where
    w: "widen_rows str w1 results = Inr w" and l: "length w = length w1"
    and v: "\<forall>j<length w1. w ! j =
           fold max [length (str (row ! j)). row \<leftarrow> results, j < length row] (w1 ! j)"
    by blast
  have "widen_rows str widths (row # results) = Inr w" using w1 w by simp
  moreover have "length w = length widths" using l l1 by simp
  moreover have "\<forall>j<length widths. w ! j =
      fold max [length (str (r ! j)). r \<leftarrow> row # results, j < length r] (widths ! j)"
    using v v1 l1 by (auto simp: max.commute)
  ultimately show ?case by blast
qed

lemma widen_rows_fail:
  "\<exists>row\<in>set results. length widths < length row \<Longrightarrow>
   widen_rows str widths results = Inl IndexError"
proof (induction results arbitrary: widths)
  case Nil
  then show ?case by simp
next
  case (Cons row results)
  show ?case
  proof (cases "length widths < length row")
    case True
    then have "widen_row str widths 0 row = Inl IndexError"
      by (intro widen_row_fail) simp_all
    then show ?thesis by simp
  next
    case False
    then have "0 + length row \<le> length widths" by simp
    from widen_row_ok [OF this, of str] obtain w1 where
      w1: "widen_row str widths 0 row = Inr w1" and l1: "length w1 = length widths" by auto
    from Cons.prems False l1 have "\<exists>row\<in>set results. length w1 < length row" by auto
    then have "widen_rows str w1 results = Inl IndexError" by (rule Cons.IH)
    with w1 show ?thesis by simp
  qed
qed

lemma ljust_cells_ok:
  "i + length cells \<le> length widths \<Longrightarrow> \<exists>padded. ljust_cells widths i cells = Inr padded"
proof (induction cells arbitrary: i)
  case Nil
  then show ?case by simp
next
  case (Cons s cells)
  then have "Suc i + length cells \<le> length widths" by simp
  from Cons.IH [OF this] obtain padded where "ljust_cells widths (Suc i) cells = Inr padded"
    by blast
  with Cons.prems show ?case by simp
qed

lemma format_rows_ok:
  "\<forall>row\<in>set results. length row \<le> length widths \<Longrightarrow>
   \<exists>rows. format_rows str widths results = Inr rows"
proof (induction results)
  case Nil
  then show ?case by simp
next
  case (Cons row results)
  then obtain rows where r: "format_rows str widths results = Inr rows" by auto
  from Cons.prems have "0 + length (map str row) \<le> length widths" by simp
  from ljust_cells_ok [OF this] obtain padded where
    "ljust_cells widths 0 (map str row) = Inr padded" by blast
  with r show ?case by simp
qed

text \<open>
  Claim C9 (the Result Formatter and the widths of the columns). For rows that are not
  empty as a list and that have each at most as many cells as there are column names,
  the widths are computed, one per column name, each the maximum of the length of the
  name and of the lengths of the strings of the cells of that column, and the function
  returns a string. If a row has more cells than there are column names, the computation
  of the widths raises \<^verbatim>\<open>IndexError\<close>, and so does the function.
\<close>

theorem format_results_widths:
  "(results \<noteq> [] \<and> (\<forall>row\<in>set results. length row \<le> length column_names) \<longrightarrow>
      (\<exists>widths out.
          column_widths str column_names results = Inr widths
          \<and> length widths = length column_names
          \<and> (\<forall>j<length column_names. widths ! j =
                Max (set (length (column_names ! j)
                          # [length (str (row ! j)). row \<leftarrow> results, j < length row])))
          \<and> format_results str column_names results = Inr out))
   \<and> ((\<exists>row\<in>set results. length column_names < length row) \<longrightarrow>
      column_widths str column_names results = Inl IndexError
      \<and> format_results str column_names results = Inl IndexError)"
proof (rule conjI; rule impI)
  assume a: "results \<noteq> [] \<and> (\<forall>row\<in>set results. length row \<le> length column_names)"
  then have "\<forall>row\<in>set results. length row \<le> length (map length column_names)" by simp
  from widen_rows_ok [OF this, of str] obtain widths where
    w: "column_widths str column_names results = Inr widths"
    and l: "length widths = length column_names"
    and v: "\<forall>j<length column_names. widths ! j =
           fold max [length (str (row ! j)). row \<leftarrow> results, j < length row]
             (length (column_names ! j))"
    by (auto simp: column_widths_def)
  have m: "\<forall>j<length column_names. widths ! j =
                Max (set (length (column_names ! j)
                          # [length (str (row ! j)). row \<leftarrow> results, j < length row]))"
    using v by (simp only: Max.set_eq_fold)
  have "0 + length column_names \<le> length widths" using l by simp
  from ljust_cells_ok [OF this] obtain names where
    n: "ljust_cells widths 0 column_names = Inr names" by blast
  from a l have "\<forall>row\<in>set results. length row \<le> length widths" by simp
  from format_rows_ok [OF this, of str] obtain rows where
    r: "format_rows str widths results = Inr rows" by blast
  from a w n r have "\<exists>out. format_results str column_names results = Inr out"
    by (simp add: format_results_def bind_exn_def Let_def)
  with w l m show "\<exists>widths out.
          column_widths str column_names results = Inr widths
          \<and> length widths = length column_names
          \<and> (\<forall>j<length column_names. widths ! j =
                Max (set (length (column_names ! j)
                          # [length (str (row ! j)). row \<leftarrow> results, j < length row])))
          \<and> format_results str column_names results = Inr out" by blast
next
  assume a: "\<exists>row\<in>set results. length column_names < length row"
  then have ne: "results \<noteq> []" by auto
  from a have "\<exists>row\<in>set results. length (map length column_names) < length row" by simp
  then have w: "column_widths str column_names results = Inl IndexError"
    unfolding column_widths_def by (rule widen_rows_fail)
  with ne show "column_widths str column_names results = Inl IndexError
      \<and> format_results str column_names results = Inl IndexError"
    by (simp add: format_results_def bind_exn_def)
qed

text \<open>Instances: the table of two rows and two columns, and a row of two cells for one column.\<close>

theorem format_results_widths_witness:
  "column_widths (\<lambda>v. v) [''id'', ''name''] [[''1'', ''Al''], [''22'', ''Bob'']] = Inr [2, 4]
   \<and> (\<exists>out. format_results (\<lambda>v. v) [''id'', ''name''] [[''1'', ''Al''], [''22'', ''Bob'']] = Inr out)
   \<and> format_results (\<lambda>v. v) [''id''] [[''1'', ''Al'']] = Inl IndexError"
proof -
  have h1: "[[''1'', ''Al''], [''22'', ''Bob'']] \<noteq> []
     \<and> (\<forall>row\<in>set [[''1'', ''Al''], [''22'', ''Bob'']]. length row \<le> length [''id'', ''name''])"
    by simp
  have h2: "\<exists>row\<in>set [[''1'', ''Al'']]. length [''id''] < length row"
    by simp
  have c: "column_widths (\<lambda>v. v) [''id'', ''name''] [[''1'', ''Al''], [''22'', ''Bob'']] = Inr [2, 4]"
    by code_simp
  have "\<exists>out. format_results (\<lambda>v. v) [''id'', ''name''] [[''1'', ''Al''], [''22'', ''Bob'']] = Inr out"
    using format_results_widths [of "[[''1'', ''Al''], [''22'', ''Bob'']]" "[''id'', ''name'']" "\<lambda>v. v"]
      h1 by blast
  moreover have "format_results (\<lambda>v. v) [''id''] [[''1'', ''Al'']] = Inl IndexError"
    using format_results_widths [of "[[''1'', ''Al'']]" "[''id'']" "\<lambda>v. v"] h2 by blast
  ultimately show ?thesis using c by blast
qed

section \<open>Properties of the Schema Introspector and the Query Executor\<close>

text \<open>
  The handles that are open after each function: those open before it when the connection
  fails and when everything succeeds, one connection and one cursor more when a statement
  raises after the connection was made.
\<close>

lemma close_after_open: "close_connection (close_cursor (open_cursor (open_connection h))) = h"
  by (simp add: close_connection_def close_cursor_def open_cursor_def open_connection_def)

lemma execute_query_handles:
  "snd (execute_query db str_exn sql_query h) =
     (case connect db of
        Some e \<Rightarrow> h
      | None \<Rightarrow> (case run db sql_query of
                   Inl e \<Rightarrow> open_cursor (open_connection h)
                 | Inr answer \<Rightarrow> h))"
  by (simp add: execute_query_def run_query_def close_after_open Let_def
           split: option.splits sum.splits prod.splits)

lemma get_database_schema_handles:
  "snd (get_database_schema db str_exn h) =
     (case connect db of
        Some e \<Rightarrow> h
      | None \<Rightarrow> (case bind_exn (show_tables db) (\<lambda>tables. describe_tables db tables []) of
                   Inl e \<Rightarrow> open_cursor (open_connection h)
                 | Inr schema \<Rightarrow> h))"
  by (simp add: get_database_schema_def read_schema_def close_after_open Let_def
           split: option.splits sum.splits prod.splits)

text \<open>
  Claim C6 (the connection and the cursor are released on every exit path). Lines 97, 98
  and 188, 189 close the cursor and the connection at the end of the body of the \<^verbatim>\<open>try\<close>;
  the handlers of lines 102 and 193 return without closing anything. When a statement
  fails with a database error, \<^verbatim>\<open>execute_query\<close> and \<^verbatim>\<open>get_database_schema\<close> return their
  message with one connection and one cursor still open.
\<close>

theorem database_error_leaves_handles_open:
  "execute_query
      \<lparr>connect = None, show_tables = Inr [], describe = (\<lambda>table_name. Inr []),
       run = (\<lambda>sql_query. Inl (MySQLError ''syntax error'') :: exn + (string list \<times> string list list))\<rparr>
      (\<lambda>err. ''syntax error'') ''SELEC 1'' \<lparr>connections = 0, cursors = 0\<rparr>
    = (Inr (None, Inl ''Error executing query: syntax error''), \<lparr>connections = 1, cursors = 1\<rparr>)
   \<and> get_database_schema
      \<lparr>connect = None, show_tables = Inr [''employees''],
       describe = (\<lambda>table_name. Inl (MySQLError ''access denied'')),
       run = (\<lambda>sql_query. Inr ([], []) :: exn + (string list \<times> string list list))\<rparr>
      (\<lambda>err. ''access denied'') \<lparr>connections = 0, cursors = 0\<rparr>
    = (Inr ''Error getting schema: access denied'', \<lparr>connections = 1, cursors = 1\<rparr>)"
  by (simp add: execute_query_def run_query_def get_database_schema_def read_schema_def
      try_except_def bind_exn_def open_connection_def open_cursor_def)

end
